theory Spec2Isabelle
  imports Main "HOL-Library.AList" "HOL-Library.List_Lexorder" "HOL-Library.Char_ord"
begin

section \<open>Values and exceptions\<close>

text \<open>
  The exceptions the modelled code can meet.  Every \<^verbatim>\<open>raise\<close> of the source or of
  a library call it makes is a value \<open>Inl e\<close> of a sum type.
\<close>

datatype exn = ValueError | KeyError | AttributeError | OverflowError
  | IllegalMonthError | IndexError | ReadError

text \<open>
  A value held by a spreadsheet cell as pandas hands it to the program: a Python
  \<^verbatim>\<open>str\<close>, a timestamp (only its calendar day matters to the program, which calls
  \<^verbatim>\<open>strftime\<close> with day formats only), or anything else (a float, NaN, a bool ...),
  which has neither \<^verbatim>\<open>split\<close> nor \<^verbatim>\<open>strftime\<close>.  Strings are byte strings:
  characters beyond ASCII are outside the model.
\<close>

datatype cell = CStr string | CDate nat nat nat | COther

section \<open>Durations\<close>

text \<open>
  A \<^verbatim>\<open>timedelta\<close> is modelled by its number of whole seconds: every duration of
  the program is built from hours and minutes or from the difference of two minute
  stamps, so the microsecond field is always 0 and \<^verbatim>\<open>int(td.total_seconds())\<close> is
  that number.  Python bounds a timedelta by 999999999 days in magnitude and raises
  \<^verbatim>\<open>OverflowError\<close> beyond.
\<close>

type_synonym timedelta = int

definition td_ok :: "int \<Rightarrow> bool" where
  "td_ok s \<longleftrightarrow> - 999999999 * 86400 \<le> s \<and> s \<le> 999999999 * 86400 + 86399"

definition mk_timedelta :: "int \<Rightarrow> int \<Rightarrow> exn + timedelta" where
  \<comment> \<open>\<^verbatim>\<open>timedelta(hours=h, minutes=m)\<close>\<close>
  "mk_timedelta h m =
     (if td_ok (h * 3600 + m * 60) then Inr (h * 3600 + m * 60) else Inl OverflowError)"

definition td_add :: "timedelta \<Rightarrow> timedelta \<Rightarrow> exn + timedelta" where
  \<comment> \<open>\<^verbatim>\<open>a + b\<close> on timedeltas\<close>
  "td_add a b = (if td_ok (a + b) then Inr (a + b) else Inl OverflowError)"

subsection \<open>Decimal text\<close>

definition digit_char :: "nat \<Rightarrow> char" where
  "digit_char n = ''0123456789'' ! n"

definition is_digit :: "char \<Rightarrow> bool" where
  "is_digit c \<longleftrightarrow> 48 \<le> (of_char c :: nat) \<and> (of_char c :: nat) \<le> 57"

definition digit_val :: "char \<Rightarrow> nat" where
  "digit_val c = of_char c - 48"

function dec :: "nat \<Rightarrow> string" where
  "dec n = (if n < 10 then [digit_char n] else dec (n div 10) @ [digit_char (n mod 10)])"
  by pat_completeness auto
termination
  by (relation "measure id") auto

declare dec.simps [simp del]

definition zfill :: "nat \<Rightarrow> string \<Rightarrow> string" where
  "zfill w s = replicate (w - length s) (CHR ''0'') @ s"

definition fmt_02d :: "int \<Rightarrow> string" where
  \<comment> \<open>the format \<^verbatim>\<open>{n:02d}\<close>: width 2, zero fill after the sign\<close>
  "fmt_02d n = (if n < 0 then CHR ''-'' # zfill 1 (dec (nat (- n))) else zfill 2 (dec (nat n)))"

subsection \<open>\<^verbatim>\<open>int(text)\<close> and \<^verbatim>\<open>text.split(sep)\<close>\<close>

definition is_space :: "char \<Rightarrow> bool" where
  \<comment> \<open>what \<^verbatim>\<open>int\<close> skips at both ends of an ASCII text: tab, line feed, vertical tab,
     form feed, carriage return and space\<close>
  "is_space c \<longleftrightarrow> (of_char c :: nat) \<in> {9, 10, 11, 12, 13, 32}"

definition strip :: "string \<Rightarrow> string" where
  "strip s = rev (dropWhile is_space (rev (dropWhile is_space s)))"

text \<open>
  The digits of a decimal literal: one or more digits, a single underscore allowed
  between two digits.  The flag says whether the previous character was a digit.
\<close>

fun int_digits :: "bool \<Rightarrow> nat \<Rightarrow> string \<Rightarrow> nat option" where
  "int_digits pd acc [] = (if pd then Some acc else None)"
| "int_digits pd acc (c # cs) =
     (if is_digit c then int_digits True (10 * acc + digit_val c) cs
      else if c = CHR ''_'' \<and> pd then int_digits False acc cs
      else None)"

definition max_str_digits :: nat where
  "max_str_digits = 4300"

definition py_int :: "string \<Rightarrow> exn + int" where
  "py_int s =
     (let t = strip s;
          (neg, body) = (case t of
                           c # cs \<Rightarrow> if c = CHR ''-'' then (True, cs)
                                     else if c = CHR ''+'' then (False, cs)
                                     else (False, t)
                         | [] \<Rightarrow> (False, t))
      in if max_str_digits < length (filter is_digit body) then Inl ValueError
         else (case int_digits False 0 body of
                 None \<Rightarrow> Inl ValueError
               | Some n \<Rightarrow> Inr (if neg then - int n else int n)))"

fun split_on :: "char \<Rightarrow> string \<Rightarrow> string list" where
  "split_on sep [] = [[]]"
| "split_on sep (c # cs) =
     (if c = sep then [] # split_on sep cs
      else (case split_on sep cs of
              [] \<Rightarrow> [[c]]
            | p # ps \<Rightarrow> (c # p) # ps))"

subsection \<open>The duration codec\<close>

definition format_timedelta :: "timedelta \<Rightarrow> string" where
  "format_timedelta time_delta =
     (let total_seconds = time_delta;
          hours = total_seconds div 3600;
          minutes = (total_seconds mod 3600) div 60
      in fmt_02d hours @ '':'' @ fmt_02d minutes)"

definition parse_time_string :: "cell \<Rightarrow> timedelta" where
  "parse_time_string time_string =
     (case time_string of
        CStr s \<Rightarrow>
          (case map py_int (split_on (CHR '':'') s) of
             [Inr hours, Inr minutes] \<Rightarrow>
               (case mk_timedelta hours minutes of Inr td \<Rightarrow> td | Inl _ \<Rightarrow> 0)
           | _ \<Rightarrow> 0)
      | _ \<Rightarrow> 0)"

text \<open>
  The format as the specification words it: whole hours truncated toward zero, the
  remainder minutes, each zero-padded to two digits.
\<close>

definition trunc_div :: "int \<Rightarrow> int \<Rightarrow> int" where
  "trunc_div a b = sgn a * (\<bar>a\<bar> div b)"

definition spec_pad2 :: "int \<Rightarrow> string" where
  "spec_pad2 n = (if n < 0 then CHR ''-'' # zfill 2 (dec (nat (- n))) else zfill 2 (dec (nat n)))"

definition spec_format :: "timedelta \<Rightarrow> string" where
  "spec_format d =
     spec_pad2 (trunc_div d 3600) @ '':'' @ spec_pad2 (trunc_div (d - 3600 * trunc_div d 3600) 60)"

definition digits_value :: "nat \<Rightarrow> string \<Rightarrow> nat" where
  \<comment> \<open>the number a digit string denotes, used to state what \<open>int_digits\<close> computes\<close>
  "digits_value acc s = foldl (\<lambda>a c. 10 * a + digit_val c) acc s"

section \<open>The record store\<close>

text \<open>
  A day's entry is the dictionary \<^verbatim>\<open>{'worked_hours': ..., 'extra_hours': ...}\<close>.  A month's
  records and the whole store are Python dictionaries keyed by text; they are modelled
  as association lists in insertion order, with distinct keys, which is the order a
  Python \<^verbatim>\<open>dict\<close> iterates in.
\<close>

record day_data =
  worked_hours :: cell
  extra_hours :: cell

type_synonym month_data = "(string \<times> day_data) list"

type_synonym work_data = "(string \<times> month_data) list"

subsection \<open>Monthly totals\<close>

fun totals_loop :: "day_data list \<Rightarrow> timedelta \<Rightarrow> timedelta \<Rightarrow> exn + timedelta \<times> timedelta" where
  "totals_loop [] total_worked total_extra = Inr (total_worked, total_extra)"
| "totals_loop (day_data # rest) total_worked total_extra =
     (case td_add total_worked (parse_time_string (worked_hours day_data)) of
        Inl e \<Rightarrow> Inl e
      | Inr tw \<Rightarrow>
          (case td_add total_extra (parse_time_string (extra_hours day_data)) of
             Inl e \<Rightarrow> Inl e
           | Inr te \<Rightarrow> totals_loop rest tw te))"

definition calculate_monthly_totals :: "month_data \<Rightarrow> exn + timedelta \<times> timedelta" where
  "calculate_monthly_totals month_data = totals_loop (map snd month_data) 0 0"

text \<open>
  The durations the specification sums, and the condition under which every partial sum
  is a timedelta Python can hold.
\<close>

definition worked_durations :: "month_data \<Rightarrow> timedelta list" where
  "worked_durations month_data = map (\<lambda>(k, v). parse_time_string (worked_hours v)) month_data"

definition extra_durations :: "month_data \<Rightarrow> timedelta list" where
  "extra_durations month_data = map (\<lambda>(k, v). parse_time_string (extra_hours v)) month_data"

fun running_ok :: "timedelta \<Rightarrow> timedelta list \<Rightarrow> bool" where
  "running_ok acc [] = True"
| "running_ok acc (x # xs) = (td_ok (acc + x) \<and> running_ok (acc + x) xs)"

definition neg_zero_text :: "nat \<Rightarrow> string" where
  \<comment> \<open>the text \<open>-00:MM\<close>\<close>
  "neg_zero_text mm = ''-00:'' @ [digit_char (mm div 10), digit_char (mm mod 10)]"

section \<open>Calendar dates\<close>

text \<open>
  A date is a triple (year, month, day).  \<open>valid_date\<close> is what the constructor of
  \<^verbatim>\<open>datetime\<close> accepts; a timestamp held by a cell is always a valid date.
\<close>

type_synonym date = "nat \<times> nat \<times> nat"

definition isleap :: "nat \<Rightarrow> bool" where
  "isleap year \<longleftrightarrow> year mod 4 = 0 \<and> (year mod 100 \<noteq> 0 \<or> year mod 400 = 0)"

definition mdays :: "nat list" where
  "mdays = [0, 31, 28, 31, 30, 31, 30, 31, 31, 30, 31, 30, 31]"

definition days_in_month :: "nat \<Rightarrow> nat \<Rightarrow> nat" where
  "days_in_month year month = (if month = 2 \<and> isleap year then 29 else mdays ! month)"

definition valid_date :: "date \<Rightarrow> bool" where
  "valid_date dt = (case dt of (year, month, day) \<Rightarrow>
     1 \<le> year \<and> year \<le> 9999 \<and> 1 \<le> month \<and> month \<le> 12
     \<and> 1 \<le> day \<and> day \<le> days_in_month year month)"

subsection \<open>\<^verbatim>\<open>strftime\<close> with the formats \<^verbatim>\<open>%Y-%m\<close> and \<^verbatim>\<open>%Y-%m-%d\<close>\<close>

text \<open>
  The month and the day are printed with two digits.  The year is printed by the C
  library of the platform, which on Linux prints the decimal number without padding:
  \<^verbatim>\<open>datetime(5, 1, 1).strftime("%Y-%m-%d")\<close> is \<^verbatim>\<open>5-01-01\<close>.  So the text has a year of
  four digits only for the years from 1000 on.
\<close>

definition strftime_Ym :: "date \<Rightarrow> string" where
  "strftime_Ym dt = (case dt of (year, month, day) \<Rightarrow>
     dec year @ ''-'' @ zfill 2 (dec month))"

definition strftime_Ymd :: "date \<Rightarrow> string" where
  "strftime_Ymd dt = (case dt of (year, month, day) \<Rightarrow>
     dec year @ ''-'' @ zfill 2 (dec month) @ ''-'' @ zfill 2 (dec day))"

subsection \<open>\<^verbatim>\<open>datetime.strptime(text, "%Y-%m-%d")\<close>\<close>

text \<open>
  The library turns the format into the regular expression
  \<^verbatim>\<open>(?P<Y>\d\d\d\d)-(?P<m>1[0-2]|0[1-9]|[1-9])-(?P<d>3[0-1]|[1-2]\d|0[1-9]|[1-9]| [1-9])\<close>,
  matches it at the start of the text, and raises \<^verbatim>\<open>ValueError\<close> when there is no
  match, when text is left over after the match, or when the numbers are not a date.
  Each group is modelled by the list of its matches in the order the alternatives are
  tried, and the expression by the list of all its matches in backtracking order; the
  match found is the first one.  So a month or a day of one digit is accepted.
\<close>

definition rx_lit :: "char \<Rightarrow> string \<Rightarrow> string list" where
  "rx_lit c s = (case s of a # rest \<Rightarrow> if a = c then [rest] else [] | [] \<Rightarrow> [])"

definition rx_Y :: "string \<Rightarrow> (nat \<times> string) list" where
  "rx_Y s = (case s of
     a # b # c # d # rest \<Rightarrow>
       if is_digit a \<and> is_digit b \<and> is_digit c \<and> is_digit d
       then [(digits_value 0 [a, b, c, d], rest)] else []
   | _ \<Rightarrow> [])"

definition in_range :: "char \<Rightarrow> char \<Rightarrow> char \<Rightarrow> bool" where
  \<comment> \<open>the character class \<^verbatim>\<open>[lo-hi]\<close>\<close>
  "in_range lo hi c \<longleftrightarrow> (of_char lo :: nat) \<le> of_char c \<and> (of_char c :: nat) \<le> of_char hi"

definition rx_two :: "(char \<Rightarrow> bool) \<Rightarrow> (char \<Rightarrow> bool) \<Rightarrow> string \<Rightarrow> (nat \<times> string) list" where
  \<comment> \<open>two characters of the given classes, read as a number (a space counts as nothing)\<close>
  "rx_two p q s = (case s of
     a # b # rest \<Rightarrow> if p a \<and> q b then [(digits_value 0 (filter is_digit [a, b]), rest)] else []
   | _ \<Rightarrow> [])"

definition rx_one :: "(char \<Rightarrow> bool) \<Rightarrow> string \<Rightarrow> (nat \<times> string) list" where
  "rx_one p s = (case s of a # rest \<Rightarrow> if p a then [(digit_val a, rest)] else [] | [] \<Rightarrow> [])"

definition rx_m :: "string \<Rightarrow> (nat \<times> string) list" where
  "rx_m s = rx_two (\<lambda>c. c = CHR ''1'') (in_range (CHR ''0'') (CHR ''2'')) s
          @ rx_two (\<lambda>c. c = CHR ''0'') (in_range (CHR ''1'') (CHR ''9'')) s
          @ rx_one (in_range (CHR ''1'') (CHR ''9'')) s"

definition rx_d :: "string \<Rightarrow> (nat \<times> string) list" where
  "rx_d s = rx_two (\<lambda>c. c = CHR ''3'') (in_range (CHR ''0'') (CHR ''1'')) s
          @ rx_two (in_range (CHR ''1'') (CHR ''2'')) is_digit s
          @ rx_two (\<lambda>c. c = CHR ''0'') (in_range (CHR ''1'') (CHR ''9'')) s
          @ rx_one (in_range (CHR ''1'') (CHR ''9'')) s
          @ rx_two (\<lambda>c. c = CHR '' '') (in_range (CHR ''1'') (CHR ''9'')) s"

definition date_regex :: "string \<Rightarrow> (date \<times> string) list" where
  "date_regex s =
     [((y, m, d), r5).
        (y, r1) \<leftarrow> rx_Y s, r2 \<leftarrow> rx_lit (CHR ''-'') r1,
        (m, r3) \<leftarrow> rx_m r2, r4 \<leftarrow> rx_lit (CHR ''-'') r3,
        (d, r5) \<leftarrow> rx_d r4]"

definition strptime :: "string \<Rightarrow> exn + date" where
  "strptime s = (case date_regex s of
     [] \<Rightarrow> Inl ValueError
   | (dt, rest) # _ \<Rightarrow>
       if rest \<noteq> [] then Inl ValueError
       else if valid_date dt then Inr dt
       else Inl ValueError)"

section \<open>Loading, merging and flattening the store\<close>

text \<open>
  A dataframe is the list of its rows, a row giving the cell under each column label.
  \<^verbatim>\<open>row['Date']\<close> raises \<^verbatim>\<open>KeyError\<close> when the label is missing.  Assigning to a key of
  a dictionary replaces the value in place when the key is present and appends the key
  otherwise (\<open>AList.update\<close>).
\<close>

type_synonym dataframe_row = "(string \<times> cell) list"

type_synonym dataframe = "dataframe_row list"

definition row_get :: "dataframe_row \<Rightarrow> string \<Rightarrow> exn + cell" where
  "row_get row label = (case map_of row label of None \<Rightarrow> Inl KeyError | Some v \<Rightarrow> Inr v)"

definition parse_date_from_row :: "cell \<Rightarrow> exn + cell" where
  "parse_date_from_row date_value =
     (case date_value of
        CStr s \<Rightarrow> (case strptime s of Inl e \<Rightarrow> Inl e | Inr (y, m, d) \<Rightarrow> Inr (CDate y m d))
      | _ \<Rightarrow> Inr date_value)"

definition strftime_of :: "(date \<Rightarrow> string) \<Rightarrow> cell \<Rightarrow> exn + string" where
  \<comment> \<open>\<^verbatim>\<open>value.strftime(format)\<close>: only a timestamp has the method\<close>
  "strftime_of fmt v = (case v of CDate y m d \<Rightarrow> Inr (fmt (y, m, d)) | _ \<Rightarrow> Inl AttributeError)"

definition ensure_month :: "work_data \<Rightarrow> string \<Rightarrow> work_data" where
  \<comment> \<open>\<^verbatim>\<open>if month_year not in work_data: work_data[month_year] = {}\<close>\<close>
  "ensure_month work_data month_year =
     (if map_of work_data month_year = None then AList.update month_year [] work_data
      else work_data)"

definition set_day :: "work_data \<Rightarrow> string \<Rightarrow> string \<Rightarrow> day_data \<Rightarrow> work_data" where
  \<comment> \<open>the bucket is created if need be, then \<^verbatim>\<open>work_data[month_year][date] = v\<close>\<close>
  "set_day work_data month_year date v =
     AList.map_entry month_year (AList.update date v) (ensure_month work_data month_year)"

fun convert_rows :: "dataframe \<Rightarrow> work_data \<Rightarrow> exn + work_data" where
  "convert_rows [] work_data = Inr work_data"
| "convert_rows (row # rest) work_data =
     (case row_get row ''Date'' of Inl e \<Rightarrow> Inl e | Inr date_value \<Rightarrow>
     (case parse_date_from_row date_value of Inl e \<Rightarrow> Inl e | Inr date_object \<Rightarrow>
     (case strftime_of strftime_Ym date_object of Inl e \<Rightarrow> Inl e | Inr month_year \<Rightarrow>
     (case strftime_of strftime_Ymd date_object of Inl e \<Rightarrow> Inl e | Inr date_string \<Rightarrow>
     (case row_get row ''Hours Worked'' of Inl e \<Rightarrow> Inl e | Inr worked \<Rightarrow>
     (case row_get row ''Extra Hours'' of Inl e \<Rightarrow> Inl e | Inr extra \<Rightarrow>
        convert_rows rest
          (set_day work_data month_year date_string
             \<lparr>worked_hours = worked, extra_hours = extra\<rparr>)))))))"

definition convert_dataframe_to_work_data :: "dataframe \<Rightarrow> exn + work_data" where
  "convert_dataframe_to_work_data dataframe = convert_rows dataframe []"

text \<open>
  What the program can see of the prior file: whether it exists and, if so, what
  \<^verbatim>\<open>pd.read_excel(file_path, sheet_name='Data')\<close> and \<^verbatim>\<open>pd.read_excel(file_path)\<close> give
  for it, each a dataframe or an exception.
\<close>

datatype source = Missing | Present "exn + dataframe" "exn + dataframe"

definition load_from_data_sheet :: "exn + dataframe \<Rightarrow> exn + work_data" where
  "load_from_data_sheet data_read =
     (case data_read of Inl e \<Rightarrow> Inl e
      | Inr existing_dataframe \<Rightarrow> convert_dataframe_to_work_data existing_dataframe)"

definition load_from_legacy_format :: "exn + dataframe \<Rightarrow> exn + work_data" where
  "load_from_legacy_format first_read =
     (case first_read of Inl e \<Rightarrow> Inl e
      | Inr old_dataframe \<Rightarrow> convert_dataframe_to_work_data old_dataframe)"

definition load_existing_data :: "source \<Rightarrow> work_data" where
  "load_existing_data src =
     (case src of
        Missing \<Rightarrow> []
      | Present data_read first_read \<Rightarrow>
          (case load_from_data_sheet data_read of
             Inr work_data \<Rightarrow> work_data
           | Inl _ \<Rightarrow>
               (case load_from_legacy_format first_read of
                  Inr work_data \<Rightarrow> work_data
                | Inl _ \<Rightarrow> [])))"

definition add_current_day_data ::
  "work_data \<Rightarrow> string \<Rightarrow> string \<Rightarrow> string \<Rightarrow> exn + work_data" where
  "add_current_day_data work_data date worked extra =
     (case strptime date of
        Inl e \<Rightarrow> Inl e
      | Inr date_object \<Rightarrow>
          (let month_year = strftime_Ym date_object
           in Inr (set_day work_data month_year date
                     \<lparr>worked_hours = CStr worked, extra_hours = CStr extra\<rparr>)))"

definition flatten_work_data :: "work_data \<Rightarrow> cell list list" where
  "flatten_work_data work_data =
     concat (map (\<lambda>(month_year, month_data).
                    map (\<lambda>(date, hours). [CStr date, worked_hours hours, extra_hours hours])
                      month_data)
               work_data)"

definition backup_dataframe :: "cell list list \<Rightarrow> dataframe" where
  \<comment> \<open>the table of the Data sheet: the columns Date, Hours Worked, Extra Hours\<close>
  "backup_dataframe all_records = map (zip [''Date'', ''Hours Worked'', ''Extra Hours'']) all_records"

definition saved_source :: "work_data \<Rightarrow> exn + dataframe \<Rightarrow> source" where
  \<comment> \<open>the saved file as the next run reads it: the Data sheet gives back the table
     written to it, cell for cell; \<open>first_read\<close> is what reading the first sheet gives\<close>
  "saved_source work_data first_read =
     Present (Inr (backup_dataframe (flatten_work_data work_data))) first_read"

subsection \<open>Well-formed stores\<close>

definition lookup_day :: "work_data \<Rightarrow> string \<Rightarrow> string \<Rightarrow> day_data option" where
  "lookup_day work_data month_year date =
     (case map_of work_data month_year of None \<Rightarrow> None | Some month_data \<Rightarrow> map_of month_data date)"

definition dict_wf :: "work_data \<Rightarrow> bool" where
  \<comment> \<open>a dictionary holds a key once\<close>
  "dict_wf work_data \<longleftrightarrow>
     distinct (map fst work_data) \<and> list_all (\<lambda>(month_year, month_data). distinct (map fst month_data)) work_data"

definition date_in_month :: "string \<Rightarrow> string \<Rightarrow> bool" where
  "date_in_month month_year date =
     (case strptime date of Inr date_object \<Rightarrow> strftime_Ym date_object = month_year | Inl _ \<Rightarrow> False)"

definition store_inv :: "work_data \<Rightarrow> bool" where
  "store_inv work_data \<longleftrightarrow>
     list_all (\<lambda>(month_year, month_data). list_all (\<lambda>(date, hours). date_in_month month_year date) month_data)
       work_data"

definition wf_dataframe :: "dataframe \<Rightarrow> bool" where
  \<comment> \<open>a timestamp in the Date column is a date of the calendar\<close>
  "wf_dataframe df \<longleftrightarrow>
     list_all (\<lambda>row. case map_of row ''Date'' of Some (CDate y m d) \<Rightarrow> valid_date (y, m, d) | _ \<Rightarrow> True) df"

definition wf_read :: "exn + dataframe \<Rightarrow> bool" where
  "wf_read r = (case r of Inl _ \<Rightarrow> True | Inr df \<Rightarrow> wf_dataframe df)"

definition wf_source :: "source \<Rightarrow> bool" where
  "wf_source src = (case src of Missing \<Rightarrow> True | Present a b \<Rightarrow> wf_read a \<and> wf_read b)"

text \<open>The stores the program can hold: what a load gives, and what a merge makes of one.\<close>

inductive produced :: "work_data \<Rightarrow> bool" where
  by_load: "wf_source src \<Longrightarrow> produced (load_existing_data src)"
| by_merge: "produced work_data \<Longrightarrow> add_current_day_data work_data date worked extra = Inr work_data'
     \<Longrightarrow> produced work_data'"

text \<open>
  The prior files whose dates all have a year of four digits: a text of the Date column
  that parses, or a timestamp there, stands for a date of the year 1000 or later.
\<close>

definition four_digit_year :: "cell \<Rightarrow> bool" where
  "four_digit_year date_value =
     (case date_value of
        CStr s \<Rightarrow> (case strptime s of Inr (year, month, day) \<Rightarrow> 1000 \<le> year | Inl _ \<Rightarrow> True)
      | CDate year month day \<Rightarrow> 1000 \<le> year
      | COther \<Rightarrow> True)"

definition four_digit_years :: "dataframe \<Rightarrow> bool" where
  "four_digit_years df \<longleftrightarrow>
     list_all (\<lambda>row. case map_of row ''Date'' of Some date_value \<Rightarrow> four_digit_year date_value
                      | None \<Rightarrow> True) df"

definition four_digit_read :: "exn + dataframe \<Rightarrow> bool" where
  "four_digit_read r = (case r of Inl _ \<Rightarrow> True | Inr df \<Rightarrow> four_digit_years df)"

definition four_digit_source :: "source \<Rightarrow> bool" where
  "four_digit_source src =
     (case src of Missing \<Rightarrow> True | Present a b \<Rightarrow> four_digit_read a \<and> four_digit_read b)"


definition flat_keys :: "work_data \<Rightarrow> string list" where
  \<comment> \<open>the date keys in the order \<open>flatten_work_data\<close> lists them\<close>
  "flat_keys work_data = concat (map (\<lambda>(month_year, month_data). map fst month_data) work_data)"

section \<open>The month calendar of the standard library\<close>

text \<open>
  \<^verbatim>\<open>calendar.monthcalendar(year, month)\<close> with Monday as the first day of the week, as
  the library computes it: \<^verbatim>\<open>weekday\<close> from the ordinal of the date (years outside
  1..9999 are first mapped into 2000..2399), \<^verbatim>\<open>monthrange\<close>, the days of the month
  padded with zeros on both sides to whole weeks, and the weeks as slices of seven.
\<close>

definition days_before_year :: "nat \<Rightarrow> nat" where
  "days_before_year year = (let y = year - 1 in y * 365 + y div 4 - y div 100 + y div 400)"

definition days_before_month :: "nat \<Rightarrow> nat \<Rightarrow> nat" where
  "days_before_month year month =
     [0, 0, 31, 59, 90, 120, 151, 181, 212, 243, 273, 304, 334] ! month
     + (if 2 < month \<and> isleap year then 1 else 0)"

definition ymd2ord :: "nat \<Rightarrow> nat \<Rightarrow> nat \<Rightarrow> nat" where
  "ymd2ord year month day = days_before_year year + days_before_month year month + day"

definition weekday :: "nat \<Rightarrow> nat \<Rightarrow> nat \<Rightarrow> nat" where
  "weekday year month day =
     (let year = (if 1 \<le> year \<and> year \<le> 9999 then year else 2000 + year mod 400)
      in (ymd2ord year month day + 6) mod 7)"

definition monthrange :: "nat \<Rightarrow> nat \<Rightarrow> exn + nat \<times> nat" where
  "monthrange year month =
     (if \<not> (1 \<le> month \<and> month \<le> 12) then Inl IllegalMonthError
      else (let day1 = weekday year month 1;
                ndays = mdays ! month + (if month = 2 \<and> isleap year then 1 else 0)
            in Inr (day1, ndays)))"

function slices7 :: "nat list \<Rightarrow> nat list list" where
  "slices7 days = (if days = [] then [] else take 7 days # slices7 (drop 7 days))"
  by pat_completeness auto
termination
  by (relation "measure length") auto

declare slices7.simps [simp del]

definition monthcalendar :: "nat \<Rightarrow> nat \<Rightarrow> exn + nat list list" where
  "monthcalendar year month =
     (case monthrange year month of
        Inl e \<Rightarrow> Inl e
      | Inr (day1, ndays) \<Rightarrow>
          (let days_before = day1 mod 7;
               days_after = (7 - (day1 + ndays) mod 7) mod 7
           in Inr (slices7 (replicate days_before 0 @ [1 ..< ndays + 1] @ replicate days_after 0))))"

definition month_name :: "nat \<Rightarrow> exn + string" where
  \<comment> \<open>\<^verbatim>\<open>calendar.month_name[month]\<close>\<close>
  "month_name month =
     (if 12 < month then Inl IndexError
      else Inr (['''', ''January'', ''February'', ''March'', ''April'', ''May'', ''June'', ''July'',
                 ''August'', ''September'', ''October'', ''November'', ''December''] ! month))"

section \<open>Rendering one month\<close>

text \<open>
  A worksheet is modelled by the writes made to its cells, in program order; a write
  names the cell (row, column) and what is put there.  \<open>Worked v\<close> stands for the text
  \<^verbatim>\<open>f"W: {v}"\<close> and \<open>Extra v\<close> for \<^verbatim>\<open>f"E: {v}"\<close>; \<open>TotalWorked s\<close> and \<open>TotalExtra s\<close> for
  \<^verbatim>\<open>f"Worked: {s}"\<close> and \<^verbatim>\<open>f"Extra: {s}"\<close>.  Fonts, fills, borders and column widths put no
  value in a cell and are left out.

  \<^verbatim>\<open>merge_cells\<close> replaces every cell of the range but the top-left one by a merged cell,
  which holds no value: what was written there before is lost.  This is the write
  \<open>Merged\<close>.  The ranges the renderer merges lie in one row.  The value a cell ends with is
  the last one written to it, and none if the cell was last made a merged cell.
\<close>

datatype written = Title string | Header string | DayNumber nat | Worked cell | Extra cell
  | TotalLabel | TotalWorked string | TotalExtra string | Merged

type_synonym cell_write = "(nat \<times> nat) \<times> written"

definition merge_cells :: "nat \<Rightarrow> nat \<Rightarrow> nat \<Rightarrow> cell_write list" where
  \<comment> \<open>the range from \<open>first_column\<close> to \<open>last_column\<close> of one row\<close>
  "merge_cells row first_column last_column =
     map (\<lambda>column. ((row, column), Merged)) [first_column + 1 ..< last_column + 1]"

definition final_value :: "cell_write list \<Rightarrow> nat \<times> nat \<Rightarrow> written option" where
  "final_value writes pos =
     (case map_of (rev writes) pos of Some Merged \<Rightarrow> None | last_write \<Rightarrow> last_write)"

definition add_month_title :: "nat \<Rightarrow> nat \<Rightarrow> exn + cell_write list" where
  "add_month_title year month =
     (case month_name month of
        Inl e \<Rightarrow> Inl e
      | Inr name \<Rightarrow> Inr (merge_cells 1 1 8 @ [((1, 1), Title (name @ '' '' @ dec year))]))"

definition add_day_headers :: "cell_write list" where
  "add_day_headers =
     map (\<lambda>(i, day_name). ((3, i + 1), Header day_name))
       (enumerate 0 [''Monday'', ''Tuesday'', ''Wednesday'', ''Thursday'', ''Friday'',
                     ''Saturday'', ''Sunday''])"

definition add_work_hours_to_cell :: "nat \<Rightarrow> nat \<Rightarrow> day_data \<Rightarrow> cell_write list" where
  "add_work_hours_to_cell row column day_data =
     ((row + 1, column), Worked (worked_hours day_data))
     # (if extra_hours day_data \<noteq> CStr ''00:00''
        then [((row + 2, column), Extra (extra_hours day_data))] else [])"

definition add_day_cell ::
  "nat \<Rightarrow> nat \<Rightarrow> nat \<Rightarrow> nat \<Rightarrow> nat \<Rightarrow> month_data \<Rightarrow> cell_write list" where
  "add_day_cell week_number day_number day year month month_data =
     (let row = 4 + week_number;
          column = day_number + 1;
          date_string = dec year @ ''-'' @ zfill 2 (dec month) @ ''-'' @ zfill 2 (dec day)
      in ((row, column), DayNumber day)
         # (case map_of month_data date_string of
              Some day_data \<Rightarrow> add_work_hours_to_cell row column day_data
            | None \<Rightarrow> []))"

definition fill_calendar_days :: "nat \<Rightarrow> nat \<Rightarrow> month_data \<Rightarrow> exn + cell_write list" where
  "fill_calendar_days year month month_data =
     (case monthcalendar year month of
        Inl e \<Rightarrow> Inl e
      | Inr calendar_weeks \<Rightarrow>
          Inr (concat (map (\<lambda>(week_number, week).
                 concat (map (\<lambda>(day_number, day).
                   if day \<noteq> 0
                   then add_day_cell week_number day_number day year month month_data
                   else [])
                   (enumerate 0 week)))
                 (enumerate 0 calendar_weeks))))"

definition add_monthly_totals :: "month_data \<Rightarrow> nat \<Rightarrow> exn + cell_write list" where
  "add_monthly_totals month_data calendar_weeks_count =
     (let total_row = 4 + calendar_weeks_count + 1
      in case calculate_monthly_totals month_data of
           Inl e \<Rightarrow> Inl e
         | Inr (total_worked, total_extra) \<Rightarrow>
             Inr (merge_cells total_row 1 2
                  @ [((total_row, 1), TotalLabel),
                     ((total_row, 3), TotalWorked (format_timedelta total_worked)),
                     ((total_row, 5), TotalExtra (format_timedelta total_extra))]))"

definition create_monthly_calendar :: "nat \<Rightarrow> nat \<Rightarrow> month_data \<Rightarrow> exn + cell_write list" where
  "create_monthly_calendar year month month_data =
     (case add_month_title year month of Inl e \<Rightarrow> Inl e | Inr title \<Rightarrow>
     (case fill_calendar_days year month month_data of Inl e \<Rightarrow> Inl e | Inr days \<Rightarrow>
     (case monthcalendar year month of Inl e \<Rightarrow> Inl e | Inr weeks \<Rightarrow>
     (case add_monthly_totals month_data (length weeks) of Inl e \<Rightarrow> Inl e | Inr totals \<Rightarrow>
        Inr (title @ add_day_headers @ days @ totals)))))"

definition grid_writes :: "cell_write list \<Rightarrow> cell_write list" where
  \<comment> \<open>the writes of day numbers, sub-lines and totals\<close>
  "grid_writes writes =
     filter (\<lambda>(pos, w). case w of Title _ \<Rightarrow> False | Header _ \<Rightarrow> False | Merged \<Rightarrow> False
                         | _ \<Rightarrow> True) writes"

section \<open>Assembling the document\<close>

text \<open>
  A workbook is the list of its sheets in order, a sheet being its title and what was
  written to it: the cell writes of a month grid, or the rows appended to the Data
  sheet.  A new workbook holds one blank sheet titled \<open>Sheet\<close>, which is its active sheet.
  \<^verbatim>\<open>create_sheet\<close> appends a sheet; the library renames a sheet whose title is already
  taken, which does not arise here since the titles made from distinct month keys are
  distinct.  \<^verbatim>\<open>sorted\<close> orders texts by their characters' codes.
\<close>

datatype sheet_content = Grid "cell_write list" | Table "cell list list"

type_synonym workbook = "(string \<times> sheet_content) list"

definition new_workbook :: workbook where
  "new_workbook = [(''Sheet'', Grid [])]"

definition remove_active :: "workbook \<Rightarrow> workbook" where
  "remove_active wb = (case wb of [] \<Rightarrow> [] | active # rest \<Rightarrow> rest)"

definition create_sheet :: "workbook \<Rightarrow> string \<Rightarrow> sheet_content \<Rightarrow> workbook" where
  "create_sheet wb sheet_title content = wb @ [(sheet_title, content)]"

definition parse_month_key :: "string \<Rightarrow> exn + nat \<times> nat" where
  \<comment> \<open>\<^verbatim>\<open>year, month = map(int, month_key.split('-'))\<close>; a part holds no minus sign, so
     the numbers are not negative\<close>
  "parse_month_key month_key =
     (case map py_int (split_on (CHR ''-'') month_key) of
        [Inr year, Inr month] \<Rightarrow> Inr (nat year, nat month)
      | _ \<Rightarrow> Inl ValueError)"

definition month_sheet :: "work_data \<Rightarrow> string \<Rightarrow> exn + string \<times> sheet_content" where
  \<comment> \<open>the body of the loop over the month keys: the sheet made for one key\<close>
  "month_sheet work_data month_key =
     (case parse_month_key month_key of Inl e \<Rightarrow> Inl e | Inr (year, month) \<Rightarrow>
     (case month_name month of Inl e \<Rightarrow> Inl e | Inr name \<Rightarrow>
     (case map_of work_data month_key of None \<Rightarrow> Inl KeyError | Some month_data \<Rightarrow>
     (case create_monthly_calendar year month month_data of Inl e \<Rightarrow> Inl e | Inr writes \<Rightarrow>
        Inr (name @ '' '' @ dec year, Grid writes)))))"

fun add_month_sheets :: "string list \<Rightarrow> work_data \<Rightarrow> workbook \<Rightarrow> exn + workbook" where
  "add_month_sheets [] work_data wb = Inr wb"
| "add_month_sheets (month_key # rest) work_data wb =
     (case month_sheet work_data month_key of
        Inl e \<Rightarrow> Inl e
      | Inr (sheet_name, content) \<Rightarrow>
          add_month_sheets rest work_data (create_sheet wb sheet_name content))"

definition create_workbook_with_calendars :: "work_data \<Rightarrow> exn + workbook" where
  "create_workbook_with_calendars work_data =
     add_month_sheets (sort (map fst work_data)) work_data (remove_active new_workbook)"

definition add_backup_data_sheet :: "workbook \<Rightarrow> work_data \<Rightarrow> workbook" where
  "add_backup_data_sheet wb work_data =
     (let all_records = flatten_work_data work_data
      in create_sheet wb ''Data''
           (Table (if all_records \<noteq> []
                   then [CStr ''Date'', CStr ''Hours Worked'', CStr ''Extra Hours''] # all_records
                   else [])))"

definition assemble :: "work_data \<Rightarrow> exn + workbook" where
  \<comment> \<open>the two document steps of \<^verbatim>\<open>create_calendar_excel\<close>, before the file is saved\<close>
  "assemble work_data =
     (case create_workbook_with_calendars work_data of
        Inl e \<Rightarrow> Inl e
      | Inr wb \<Rightarrow> Inr (add_backup_data_sheet wb work_data))"

definition nonempty_buckets :: "work_data \<Rightarrow> bool" where
  "nonempty_buckets work_data = list_all (\<lambda>(month_year, month_data). month_data \<noteq> []) work_data"

definition totals_in_range :: "work_data \<Rightarrow> bool" where
  \<comment> \<open>the totals of every month can be computed\<close>
  "totals_in_range work_data =
     list_all (\<lambda>(month_year, month_data).
        running_ok 0 (worked_durations month_data) \<and> running_ok 0 (extra_durations month_data))
       work_data"

definition month_title :: "date \<Rightarrow> string" where
  \<comment> \<open>the title \<open><MonthName> <Year>\<close> of the specification\<close>
  "month_title dt = (case dt of (year, month, day) \<Rightarrow>
     [''January'', ''February'', ''March'', ''April'', ''May'', ''June'', ''July'',
      ''August'', ''September'', ''October'', ''November'', ''December''] ! (month - 1)
     @ '' '' @ dec year)"

subsection \<open>Stores whose date keys are in canonical form\<close>

definition canonical_key :: "string \<Rightarrow> bool" where
  \<comment> \<open>the text is what \<^verbatim>\<open>strftime("%Y-%m-%d")\<close> prints for the date it parses to\<close>
  "canonical_key date =
     (case strptime date of Inr date_object \<Rightarrow> strftime_Ymd date_object = date | Inl _ \<Rightarrow> False)"

definition canonical :: "work_data \<Rightarrow> bool" where
  "canonical work_data \<longleftrightarrow>
     list_all (\<lambda>(month_year, month_data). list_all (\<lambda>(date, hours). canonical_key date) month_data)
       work_data"

definition entries :: "work_data \<Rightarrow> (string \<times> string \<times> day_data) list" where
  \<comment> \<open>the records with their month keys, in the order \<open>flatten_work_data\<close> lists them\<close>
  "entries work_data =
     concat (map (\<lambda>(month_year, month_data). map (Pair month_year) month_data)
               work_data)"

definition rebuild :: "work_data \<Rightarrow> (string \<times> string \<times> day_data) list \<Rightarrow> work_data" where
  "rebuild acc es = foldl (\<lambda>a (month_year, date, hours). set_day a month_year date hours) acc es"

definition row_of :: "string \<times> string \<times> day_data \<Rightarrow> dataframe_row" where
  \<comment> \<open>the row of the Data sheet that holds a record\<close>
  "row_of entry = (case entry of (month_year, date, hours) \<Rightarrow>
     [(''Date'', CStr date), (''Hours Worked'', worked_hours hours), (''Extra Hours'', extra_hours hours)])"

section \<open>Properties of the duration codec\<close>

lemma digit_char_props:
  "n < 10 \<Longrightarrow> is_digit (digit_char n) \<and> digit_val (digit_char n) = n \<and> digit_char n \<noteq> CHR '':''"
proof -
  assume "n < 10"
  then have "n \<in> {0, 1, 2, 3, 4, 5, 6, 7, 8, 9}" by auto
  then show ?thesis by (auto simp: is_digit_def digit_val_def digit_char_def)
qed

lemma trunc_div_nonneg: "0 \<le> a \<Longrightarrow> trunc_div a b = a div b"
  by (cases "a = 0") (simp_all add: trunc_div_def)

lemma spec_pad2_nonneg: "0 \<le> n \<Longrightarrow> spec_pad2 n = fmt_02d n"
  by (simp add: spec_pad2_def fmt_02d_def)

lemma spec_format_nonneg: "0 \<le> d \<Longrightarrow> spec_format d = format_timedelta d"
proof -
  assume d: "0 \<le> d"
  have h: "0 \<le> d div 3600" using d by (simp add: pos_imp_zdiv_nonneg_iff)
  have r: "d - 3600 * (d div 3600) = d mod 3600" by (simp add: minus_mult_div_eq_mod)
  have m: "0 \<le> d mod 3600" by simp
  have q: "0 \<le> (d mod 3600) div 60" by (simp add: pos_imp_zdiv_nonneg_iff)
  show ?thesis
    unfolding spec_format_def format_timedelta_def Let_def
    by (simp only: trunc_div_nonneg [OF d] r trunc_div_nonneg [OF m]
        spec_pad2_nonneg [OF h] spec_pad2_nonneg [OF q])
qed

text \<open>
  Claim C6, as the code has it.  The text is \<open>HH:MM\<close> where \<open>HH\<close> is the floor of the
  total seconds over 3600 and \<open>MM\<close>, between 0 and 59, is what is left in whole minutes,
  each printed by \<^verbatim>\<open>{:02d}\<close>.  For a non-negative duration the floor is the truncation
  toward zero and the text is the one the specification describes; for a negative one the
  hours are rounded toward minus infinity, not toward zero.
\<close>

theorem format_timedelta_floor:
  "format_timedelta d = fmt_02d (d div 3600) @ '':'' @ fmt_02d ((d mod 3600) div 60)
   \<and> 0 \<le> (d mod 3600) div 60 \<and> (d mod 3600) div 60 < 60
   \<and> (d div 3600) * 3600 + ((d mod 3600) div 60) * 60 \<le> d
   \<and> d < (d div 3600) * 3600 + ((d mod 3600) div 60) * 60 + 60
   \<and> (0 \<le> d \<longrightarrow> format_timedelta d = spec_format d)"
proof -
  have a: "format_timedelta d = fmt_02d (d div 3600) @ '':'' @ fmt_02d ((d mod 3600) div 60)"
    by (simp add: format_timedelta_def)
  have b: "0 \<le> (d mod 3600) div 60" by (simp add: pos_imp_zdiv_nonneg_iff)
  have c: "(d mod 3600) div 60 < 60" by (simp add: div_less_iff_less_mult)
  have e: "(d div 3600) * 3600 + ((d mod 3600) div 60) * 60 \<le> d" by presburger
  have f: "d < (d div 3600) * 3600 + ((d mod 3600) div 60) * 60 + 60" by presburger
  from a b c e f spec_format_nonneg show ?thesis by simp
qed

theorem format_timedelta_floor_witness:
  "(0::int) \<le> 30600 \<and> format_timedelta 30600 = ''08:30'' \<and> spec_format 30600 = ''08:30''"
proof -
  have "(0::int) \<le> 30600 \<longrightarrow> format_timedelta 30600 = spec_format 30600"
    using format_timedelta_floor [of 30600] by blast
  then have "format_timedelta 30600 = spec_format 30600" by simp
  moreover have "format_timedelta 30600 = ''08:30''"
    by (simp add: format_timedelta_def fmt_02d_def zfill_def dec.simps digit_char_def)
  ultimately show ?thesis by simp
qed

text \<open>
  Claim C6, as stated, fails at minus a quarter of an hour: the code prints \<open>-1:45\<close>,
  the hours truncated toward zero are 0, and the hours field has no zero padding.
\<close>

theorem format_truncation_counterexample:
  "format_timedelta (- 900) = ''-1:45'' \<and> trunc_div (- 900) 3600 = 0
   \<and> format_timedelta (- 900) \<noteq> spec_format (- 900)"
  by (simp add: format_timedelta_def spec_format_def spec_pad2_def trunc_div_def
      fmt_02d_def zfill_def dec.simps digit_char_def)

lemma dec_digits: "c \<in> set (dec n) \<Longrightarrow> is_digit c \<and> c \<noteq> CHR '':''"
proof (induction n rule: dec.induct)
  case (1 n)
  show ?case
  proof (cases "n < 10")
    case True
    with 1(2) show ?thesis by (subst (asm) dec.simps) (simp add: digit_char_props)
  next
    case False
    have "n mod 10 < 10" by simp
    then have d: "is_digit (digit_char (n mod 10)) \<and> digit_char (n mod 10) \<noteq> CHR '':''"
      using digit_char_props [of "n mod 10"] by simp
    from 1(2) False have "c \<in> set (dec (n div 10)) \<or> c = digit_char (n mod 10)"
      by (subst (asm) dec.simps) auto
    with d 1(1) False show ?thesis by auto
  qed
qed

lemma dec_nonempty: "dec n \<noteq> []"
  by (subst dec.simps) simp

lemma digits_value_dec: "digits_value 0 (dec n) = n"
proof (induction n rule: dec.induct)
  case (1 n)
  show ?case
  proof (cases "n < 10")
    case True
    then show ?thesis by (subst dec.simps) (simp add: digits_value_def digit_char_props)
  next
    case False
    have "n mod 10 < 10" by simp
    then have "digit_val (digit_char (n mod 10)) = n mod 10" using digit_char_props [of "n mod 10"] by simp
    with False 1 show ?thesis by (subst dec.simps) (simp add: digits_value_def)
  qed
qed

lemma digits_value_zeros: "digits_value 0 (replicate k (CHR ''0'') @ s) = digits_value 0 s"
  by (induction k) (simp_all add: digits_value_def digit_val_def)

lemma int_digits_all:
  "\<forall>c\<in>set s. is_digit c \<Longrightarrow> pd \<or> s \<noteq> [] \<Longrightarrow> int_digits pd acc s = Some (digits_value acc s)"
  by (induction s arbitrary: pd acc) (auto simp: digits_value_def)


lemma is_digit_not_space: "is_digit c \<Longrightarrow> \<not> is_space c"
  by (auto simp: is_digit_def is_space_def)

lemma dropWhile_id: "xs = [] \<or> \<not> P (hd xs) \<Longrightarrow> dropWhile P xs = xs"
  by (cases xs) auto

lemma strip_id: "\<forall>c\<in>set s. \<not> is_space c \<Longrightarrow> strip s = s"
proof -
  assume a: "\<forall>c\<in>set s. \<not> is_space c"
  have 1: "dropWhile is_space s = s" using a by (intro dropWhile_id) (cases s, auto)
  have "\<forall>c\<in>set (rev s). \<not> is_space c" using a by simp
  then have 2: "dropWhile is_space (rev s) = rev s" by (intro dropWhile_id) (cases "rev s", auto)
  show ?thesis by (simp add: strip_def 1 2)
qed

lemma py_int_digits:
  assumes "\<forall>c\<in>set s. is_digit c" "s \<noteq> []" "length s \<le> max_str_digits"
  shows "py_int s = Inr (int (digits_value 0 s))"
proof -
  have st: "strip s = s" using assms(1) by (intro strip_id) (auto dest: is_digit_not_space)
  obtain c cs where s: "s = c # cs" using assms(2) by (cases s) auto
  have "is_digit c" using assms(1) s by simp
  then have c: "c \<noteq> CHR ''-''" "c \<noteq> CHR ''+''" by (auto simp: is_digit_def)
  have f: "filter is_digit s = s" using assms(1) by simp
  have i: "int_digits False 0 s = Some (digits_value 0 s)" using assms by (intro int_digits_all) auto
  have "py_int (c # cs) = Inr (int (digits_value 0 (c # cs)))"
    unfolding py_int_def st [unfolded s] Let_def using c f [unfolded s] i [unfolded s] assms(3) [unfolded s]
    by (simp del: int_digits.simps filter.simps)
  then show ?thesis by (simp only: s)
qed

lemma length_dec: "0 < k \<Longrightarrow> n < 10 ^ k \<Longrightarrow> length (dec n) \<le> k"
proof (induction n arbitrary: k rule: dec.induct)
  case (1 n)
  show ?case
  proof (cases "n < 10")
    case True
    with 1(2) show ?thesis by (subst dec.simps) simp
  next
    case False
    obtain j where j: "k = Suc j" using 1(2) by (cases k) auto
    have "0 < j" using False 1(3) j by (cases j) auto
    moreover have "n div 10 < 10 ^ j" using 1(3) j by (simp add: less_mult_imp_div_less mult.commute)
    ultimately have "length (dec (n div 10)) \<le> j" using 1(1) False by simp
    with False j show ?thesis by (subst dec.simps) simp
  qed
qed

lemma length_dec_small: "n < 100000000000 \<Longrightarrow> length (dec n) \<le> max_str_digits"
proof -
  assume "n < 100000000000"
  then have "n < 10 ^ 11" by simp
  with length_dec [of 11 n] have "length (dec n) \<le> 11" by simp
  then show ?thesis unfolding max_str_digits_def by linarith
qed

lemma zfill_digits: "\<forall>c\<in>set s. is_digit c \<Longrightarrow> \<forall>c\<in>set (zfill w s). is_digit c"
  by (auto simp: zfill_def is_digit_def)

lemma py_int_fmt_02d:
  assumes "0 \<le> n" "length (dec (nat n)) \<le> max_str_digits"
  shows "py_int (fmt_02d n) = Inr n"
proof -
  let ?s = "zfill 2 (dec (nat n))"
  have d: "\<forall>c\<in>set ?s. is_digit c" by (intro zfill_digits) (auto dest: dec_digits)
  have ne: "?s \<noteq> []" by (simp add: zfill_def dec_nonempty)
  have l: "length ?s \<le> max_str_digits" using assms(2) by (auto simp: zfill_def max_str_digits_def)
  have v: "digits_value 0 ?s = nat n" by (simp add: zfill_def digits_value_zeros digits_value_dec)
  show ?thesis using py_int_digits [OF d ne l] assms(1) by (simp add: fmt_02d_def v)
qed

lemma split_on_no_sep: "sep \<notin> set b \<Longrightarrow> split_on sep b = [b]"
  by (induction b) auto

lemma split_on_append: "sep \<notin> set a \<Longrightarrow> split_on sep (a @ sep # b) = a # split_on sep b"
  by (induction a) auto

lemma fmt_02d_no_colon: "CHR '':'' \<notin> set (fmt_02d n)"
  by (auto simp: fmt_02d_def zfill_def dest: dec_digits)

lemma parse_fmt:
  assumes "0 \<le> h" "0 \<le> m" "length (dec (nat h)) \<le> max_str_digits"
    "length (dec (nat m)) \<le> max_str_digits" "td_ok (h * 3600 + m * 60)"
  shows "parse_time_string (CStr (fmt_02d h @ '':'' @ fmt_02d m)) = h * 3600 + m * 60"
proof -
  have s: "split_on (CHR '':'') (fmt_02d h @ '':'' @ fmt_02d m) = [fmt_02d h, fmt_02d m]"
    by (simp add: split_on_append split_on_no_sep fmt_02d_no_colon)
  have ph: "py_int (fmt_02d h) = Inr h" by (rule py_int_fmt_02d [OF assms(1) assms(3)])
  have pm: "py_int (fmt_02d m) = Inr m" by (rule py_int_fmt_02d [OF assms(2) assms(4)])
  have mk: "mk_timedelta h m = Inr (h * 3600 + m * 60)" using assms(5) by (simp add: mk_timedelta_def)
  show ?thesis
    unfolding parse_time_string_def cell.case s list.map ph pm by (simp add: mk)
qed

lemma hm_recompose: "(d::int) mod 60 = 0 \<Longrightarrow> d div 3600 * 3600 + d mod 3600 div 60 * 60 = d"
proof -
  assume a: "d mod 60 = 0"
  have "(60::int) dvd 3600" by simp
  then have "d mod 3600 mod 60 = d mod 60" by (rule mod_mod_cancel)
  with a have "d mod 3600 mod 60 = 0" by simp
  then have "d mod 3600 div 60 * 60 = d mod 3600" by (simp add: mod_0_imp_dvd)
  then show ?thesis by simp
qed

text \<open>
  Claim C7.  A non-negative duration of whole minutes, formatted and parsed back, is the
  duration itself.
\<close>

theorem parse_format_inverse:
  assumes "td_ok d" "0 \<le> d" "d mod 60 = 0"
  shows "parse_time_string (CStr (format_timedelta d)) = d"
proof -
  let ?h = "d div 3600" and ?m = "(d mod 3600) div 60"
  have h0: "0 \<le> ?h" using assms(2) by (simp add: pos_imp_zdiv_nonneg_iff)
  have m0: "0 \<le> ?m" by (simp add: pos_imp_zdiv_nonneg_iff)
  have m60: "?m < 60" by (simp add: div_less_iff_less_mult)
  have "d \<le> 86399999999999" using assms(1) by (simp add: td_ok_def)
  then have "?h < 100000000000" by linarith
  then have "nat ?h < 100000000000" using h0 by linarith
  then have lh: "length (dec (nat ?h)) \<le> max_str_digits" by (rule length_dec_small)
  have "nat ?m < 100000000000" using m60 m0 by linarith
  then have lm: "length (dec (nat ?m)) \<le> max_str_digits" by (rule length_dec_small)
  have e: "?h * 3600 + ?m * 60 = d" using assms(3) by (rule hm_recompose)
  have ok: "td_ok (?h * 3600 + ?m * 60)" using assms(1) by (simp only: e)
  have "parse_time_string (CStr (fmt_02d ?h @ '':'' @ fmt_02d ?m)) = ?h * 3600 + ?m * 60"
    by (rule parse_fmt [OF h0 m0 lh lm ok])
  then show ?thesis by (simp only: e format_timedelta_def Let_def)
qed

theorem parse_format_inverse_witness:
  "td_ok 30600 \<and> (0::int) \<le> 30600 \<and> (30600::int) mod 60 = 0
   \<and> format_timedelta 30600 = ''08:30'' \<and> parse_time_string (CStr ''08:30'') = 30600"
proof -
  have a: "td_ok 30600" by (simp add: td_ok_def)
  have f: "format_timedelta 30600 = ''08:30''"
    by (simp add: format_timedelta_def fmt_02d_def zfill_def dec.simps digit_char_def)
  have "parse_time_string (CStr (format_timedelta 30600)) = 30600"
    using parse_format_inverse [of 30600] a by simp
  with a f show ?thesis by simp
qed

section \<open>Properties of the monthly totals\<close>

lemma totals_loop_char:
  "totals_loop ds tw te =
     (if running_ok tw (map (\<lambda>v. parse_time_string (worked_hours v)) ds)
         \<and> running_ok te (map (\<lambda>v. parse_time_string (extra_hours v)) ds)
      then Inr (tw + sum_list (map (\<lambda>v. parse_time_string (worked_hours v)) ds),
                te + sum_list (map (\<lambda>v. parse_time_string (extra_hours v)) ds))
      else Inl OverflowError)"
  by (induction ds arbitrary: tw te) (auto simp: td_add_def)

lemma totals_char:
  "calculate_monthly_totals md =
     (if running_ok 0 (worked_durations md) \<and> running_ok 0 (extra_durations md)
      then Inr (sum_list (worked_durations md), sum_list (extra_durations md))
      else Inl OverflowError)"
proof -
  have w: "map (\<lambda>v. parse_time_string (worked_hours v)) (map snd md) = worked_durations md"
    by (simp add: worked_durations_def case_prod_unfold)
  have e: "map (\<lambda>v. parse_time_string (extra_hours v)) (map snd md) = extra_durations md"
    by (simp add: extra_durations_def case_prod_unfold)
  show ?thesis
    unfolding calculate_monthly_totals_def totals_loop_char w e by simp
qed

text \<open>
  Claim C8, as the code has it.  While every running total stays a timedelta Python can
  hold, the totals are the sums of the parsed worked and extra texts, a text that does
  not parse counting as zero; as soon as a running total leaves the range the
  computation raises \<^verbatim>\<open>OverflowError\<close> and there is no totals row.
\<close>

theorem monthly_totals_sum:
  "(running_ok 0 (worked_durations md) \<and> running_ok 0 (extra_durations md) \<longrightarrow>
      calculate_monthly_totals md = Inr (sum_list (worked_durations md), sum_list (extra_durations md)))
   \<and> (\<not> (running_ok 0 (worked_durations md) \<and> running_ok 0 (extra_durations md)) \<longrightarrow>
      calculate_monthly_totals md = Inl OverflowError)"
  by (simp add: totals_char)

lemma parse_0830: "parse_time_string (CStr ''08:30'') = 30600"
  by (simp add: parse_time_string_def py_int_def strip_def is_space_def is_digit_def
      digit_val_def max_str_digits_def mk_timedelta_def td_ok_def)

lemma parse_junk: "parse_time_string (CStr ''n/a'') = 0"
  by (simp add: parse_time_string_def py_int_def strip_def is_space_def is_digit_def
      digit_val_def max_str_digits_def mk_timedelta_def td_ok_def)

lemma parse_other: "parse_time_string COther = 0"
  by (simp add: parse_time_string_def)

theorem monthly_totals_sum_witness:
  "running_ok 0 (worked_durations
       [(''2025-01-15'', \<lparr>worked_hours = CStr ''08:30'', extra_hours = CStr ''n/a''\<rparr>),
        (''2025-01-16'', \<lparr>worked_hours = CStr ''08:30'', extra_hours = COther\<rparr>)])
   \<and> running_ok 0 (extra_durations
       [(''2025-01-15'', \<lparr>worked_hours = CStr ''08:30'', extra_hours = CStr ''n/a''\<rparr>),
        (''2025-01-16'', \<lparr>worked_hours = CStr ''08:30'', extra_hours = COther\<rparr>)])
   \<and> calculate_monthly_totals
       [(''2025-01-15'', \<lparr>worked_hours = CStr ''08:30'', extra_hours = CStr ''n/a''\<rparr>),
        (''2025-01-16'', \<lparr>worked_hours = CStr ''08:30'', extra_hours = COther\<rparr>)]
      = Inr (61200, 0)"
  using monthly_totals_sum
    [of "[(''2025-01-15'', \<lparr>worked_hours = CStr ''08:30'', extra_hours = CStr ''n/a''\<rparr>),
          (''2025-01-16'', \<lparr>worked_hours = CStr ''08:30'', extra_hours = COther\<rparr>)]"]
  by (simp add: worked_durations_def extra_durations_def parse_0830 parse_junk parse_other td_ok_def)

lemma parse_huge: "parse_time_string (CStr ''23999999976:00'') = 86399999913600"
  by (simp add: parse_time_string_def py_int_def strip_def is_space_def is_digit_def
      digit_val_def max_str_digits_def mk_timedelta_def td_ok_def)

text \<open>
  Claim C8, as stated, fails for two records of 999999999 days each: both texts parse,
  their sum is beyond the largest timedelta, and the computation raises.
\<close>

theorem monthly_totals_overflow_counterexample:
  "parse_time_string (CStr ''23999999976:00'') = 86399999913600
   \<and> calculate_monthly_totals
       [(''2025-01-01'', \<lparr>worked_hours = CStr ''23999999976:00'', extra_hours = CStr ''00:00''\<rparr>),
        (''2025-01-02'', \<lparr>worked_hours = CStr ''23999999976:00'', extra_hours = CStr ''00:00''\<rparr>)]
      = Inl OverflowError"
  by (simp add: calculate_monthly_totals_def parse_huge td_add_def td_ok_def)

section \<open>A negative duration with a zero hours field\<close>

lemma py_int_neg_zero: "py_int ''-00'' = Inr 0"
  by (simp add: py_int_def strip_def is_space_def is_digit_def digit_val_def max_str_digits_def)

lemma py_int_two_digits:
  assumes "mm < 100"
  shows "py_int [digit_char (mm div 10), digit_char (mm mod 10)] = Inr (int mm)"
proof -
  let ?s = "[digit_char (mm div 10), digit_char (mm mod 10)]"
  have a: "mm div 10 < 10" using assms by simp
  have b: "mm mod 10 < 10" by simp
  have d: "\<forall>c\<in>set ?s. is_digit c"
    using digit_char_props [OF a] digit_char_props [OF b] by simp
  have l: "length ?s \<le> max_str_digits" by (simp add: max_str_digits_def)
  have v: "digits_value 0 ?s = mm"
    using digit_char_props [OF a] digit_char_props [OF b] by (simp add: digits_value_def)
  show ?thesis using py_int_digits [OF d _ l] by (simp add: v)
qed

lemma parse_neg_zero_text:
  assumes "mm \<le> 59"
  shows "parse_time_string (CStr (neg_zero_text mm)) = 60 * int mm"
proof -
  let ?s = "[digit_char (mm div 10), digit_char (mm mod 10)]"
  have a: "mm div 10 < 10" using assms by simp
  have b: "mm mod 10 < 10" by simp
  have nc: "CHR '':'' \<notin> set ?s"
    using digit_char_props [OF a] digit_char_props [OF b] by auto
  have "split_on (CHR '':'') (''-00'' @ CHR '':'' # ?s) = ''-00'' # split_on (CHR '':'') ?s"
    by (rule split_on_append) simp
  then have s: "split_on (CHR '':'') (neg_zero_text mm) = [''-00'', ?s]"
    using split_on_no_sep [OF nc] by (simp add: neg_zero_text_def)
  have pm: "py_int ?s = Inr (int mm)" using assms by (intro py_int_two_digits) simp
  have mk: "mk_timedelta 0 (int mm) = Inr (60 * int mm)"
    using assms by (simp add: mk_timedelta_def td_ok_def)
  show ?thesis
    unfolding parse_time_string_def cell.case s list.map py_int_neg_zero pm by (simp add: mk)
qed

text \<open>
  Claim C10.  The text \<open>-00:MM\<close> with \<open>MM\<close> from 1 to 59 parses to plus \<open>MM\<close> minutes:
  the sign is read with the hours field, which is zero.  A record with such an extra text
  therefore adds \<open>MM\<close> minutes to the month's extra total, whatever the other records are.
\<close>

theorem negative_zero_hours_sign_lost:
  assumes "1 \<le> mm" "mm \<le> 59"
  shows "parse_time_string (CStr (neg_zero_text mm)) = 60 * int mm
    \<and> 0 < parse_time_string (CStr (neg_zero_text mm))
    \<and> (calculate_monthly_totals
          (xs @ (k, \<lparr>worked_hours = w, extra_hours = CStr (neg_zero_text mm)\<rparr>) # ys) = Inr (tw, te)
        \<longrightarrow> te = sum_list (extra_durations xs) + 60 * int mm + sum_list (extra_durations ys)
          \<and> sum_list (extra_durations xs) + sum_list (extra_durations ys) < te)"
proof -
  have p: "parse_time_string (CStr (neg_zero_text mm)) = 60 * int mm"
    using assms(2) by (rule parse_neg_zero_text)
  have pos: "0 < 60 * int mm" using assms(1) by simp
  let ?md = "xs @ (k, \<lparr>worked_hours = w, extra_hours = CStr (neg_zero_text mm)\<rparr>) # ys"
  have e: "sum_list (extra_durations ?md)
      = sum_list (extra_durations xs) + 60 * int mm + sum_list (extra_durations ys)"
    by (simp add: extra_durations_def p)
  have "calculate_monthly_totals ?md = Inr (tw, te) \<longrightarrow> te = sum_list (extra_durations ?md)"
    by (simp add: totals_char split: if_splits)
  with e pos p show ?thesis by auto
qed

theorem negative_zero_hours_sign_lost_witness:
  "(1::nat) \<le> 15 \<and> (15::nat) \<le> 59 \<and> neg_zero_text 15 = ''-00:15''
   \<and> parse_time_string (CStr ''-00:15'') = 900
   \<and> calculate_monthly_totals
        [(''2025-01-20'', \<lparr>worked_hours = CStr ''07:45'', extra_hours = CStr ''-00:15''\<rparr>)]
      = Inr (27900, 900)"
proof -
  have t: "neg_zero_text 15 = ''-00:15''" by (simp add: neg_zero_text_def digit_char_def)
  have p: "parse_time_string (CStr ''-00:15'') = 900"
    using negative_zero_hours_sign_lost [of 15] by (simp add: t)
  have w: "parse_time_string (CStr ''07:45'') = 27900"
    by (simp add: parse_time_string_def py_int_def strip_def is_space_def is_digit_def
        digit_val_def max_str_digits_def mk_timedelta_def td_ok_def)
  show ?thesis using t p w by (simp add: calculate_monthly_totals_def td_add_def td_ok_def)
qed

section \<open>Properties of date texts\<close>

lemma dec_lt10: "n < 10 \<Longrightarrow> dec n = [digit_char n]"
  by (subst dec.simps) simp

lemma dec_ge10: "10 \<le> n \<Longrightarrow> dec n = dec (n div 10) @ [digit_char (n mod 10)]"
  by (subst dec.simps) simp

lemma digit_char_0: "digit_char 0 = CHR ''0''"
  by (simp add: digit_char_def)

lemma replicate_small:
  "replicate 3 c = [c, c, c]" "replicate 2 c = [c, c]" "replicate (Suc 0) c = [c]"
  by (simp_all add: numeral_3_eq_3 numeral_2_eq_2)

lemma pad2: "n < 100 \<Longrightarrow> zfill 2 (dec n) = [digit_char (n div 10), digit_char (n mod 10)]"
proof (cases "n < 10")
  case True
  then show ?thesis by (simp add: dec_lt10 zfill_def digit_char_0 replicate_small)
next
  case False
  assume "n < 100"
  with False have "n div 10 < 10" "10 \<le> n" by auto
  then show ?thesis by (simp add: dec_ge10 dec_lt10 zfill_def)
qed

lemma dec3: "100 \<le> n \<Longrightarrow> n < 1000 \<Longrightarrow>
  dec n = [digit_char (n div 100), digit_char (n div 10 mod 10), digit_char (n mod 10)]"
proof -
  assume a: "100 \<le> n" "n < 1000"
  then have b: "10 \<le> n div 10" "n div 10 < 100" by auto
  have c: "n div 10 div 10 < 10" using a by auto
  have "dec (n div 10) = [digit_char (n div 10 div 10), digit_char (n div 10 mod 10)]"
    using b c by (simp add: dec_ge10 dec_lt10)
  moreover have "n div 10 div 10 = n div 100" by (simp add: div_mult2_eq)
  ultimately show ?thesis using a by (simp add: dec_ge10)
qed



lemma pad4: "n < 10000 \<Longrightarrow> zfill 4 (dec n) =
  [digit_char (n div 1000), digit_char (n div 100 mod 10), digit_char (n div 10 mod 10), digit_char (n mod 10)]"
proof -
  assume n: "n < 10000"
  have c: "n < 10 \<or> (10 \<le> n \<and> n < 100) \<or> (100 \<le> n \<and> n < 1000) \<or> 1000 \<le> n" by linarith
  have 1: "n < 10 \<Longrightarrow> ?thesis"
    by (simp add: dec_lt10 zfill_def digit_char_0 replicate_small)
  have 2: "10 \<le> n \<Longrightarrow> n < 100 \<Longrightarrow> ?thesis"
  proof -
    assume a: "10 \<le> n" "n < 100"
    then have "n div 10 < 10" by auto
    with a show ?thesis by (simp add: dec_ge10 dec_lt10 zfill_def digit_char_0 replicate_small)
  qed
  have 3: "100 \<le> n \<Longrightarrow> n < 1000 \<Longrightarrow> ?thesis"
    by (simp add: dec3 zfill_def digit_char_0 replicate_small)
  have 4: "1000 \<le> n \<Longrightarrow> ?thesis"
  proof -
    assume b: "1000 \<le> n"
    then have a: "100 \<le> n div 10" "n div 10 < 1000" using n by auto
    have d: "n div 10 div 100 = n div 1000" "n div 10 div 10 = n div 100" by (simp_all add: div_mult2_eq)
    have "dec n = dec (n div 10) @ [digit_char (n mod 10)]" using b by (intro dec_ge10) simp
    also have "dec (n div 10) = [digit_char (n div 10 div 100), digit_char (n div 10 div 10 mod 10), digit_char (n div 10 mod 10)]"
      using a by (rule dec3)
    finally show ?thesis by (simp add: d zfill_def)
  qed
  from c 1 2 3 4 show ?thesis by blast
qed

lemma digit_char_range: "n < 10 \<Longrightarrow> of_char (digit_char n) = 48 + n"
proof -
  assume "n < 10"
  then have "n \<in> {0, 1, 2, 3, 4, 5, 6, 7, 8, 9}" by auto
  then show ?thesis by (auto simp: digit_char_def)
qed

lemma year_digits: "y < 10000 \<Longrightarrow>
  1000 * (y div 1000) + 100 * (y div 100 mod 10) + 10 * (y div 10 mod 10) + y mod 10 = (y::nat)"
proof -
  assume "y < 10000"
  define q1 q2 q3 r0 r1 r2 where "q1 = y div 10" and "q2 = y div 100" and "q3 = y div 1000"
    and "r0 = y mod 10" and "r1 = y div 10 mod 10" and "r2 = y div 100 mod 10"
  have d: "y div 10 div 10 = y div 100" "y div 100 div 10 = y div 1000"
    by (simp_all add: div_mult2_eq)
  have a: "y = 10 * q1 + r0" unfolding q1_def r0_def by simp
  have b: "q1 = 10 * q2 + r1" unfolding q1_def q2_def r1_def d(1) [symmetric] by simp
  have c: "q2 = 10 * q3 + r2" unfolding q2_def q3_def r2_def d(2) [symmetric] by simp
  have "1000 * q3 + 100 * r2 + 10 * r1 + r0 = y" using a b c by simp
  then show ?thesis unfolding q3_def r0_def r1_def r2_def .
qed

lemma rx_Y_pad: "y < 10000 \<Longrightarrow> rx_Y (zfill 4 (dec y) @ r) = [(y, r)]"
proof -
  assume y: "y < 10000"
  have a: "y div 1000 < 10" using y by (simp add: less_mult_imp_div_less)
  have b: "y div 100 mod 10 < 10" "y div 10 mod 10 < 10" "y mod 10 < 10" by simp_all
  note p = digit_char_props [OF a] digit_char_props [OF b(1)] digit_char_props [OF b(2)]
    digit_char_props [OF b(3)]
  show ?thesis
    using p year_digits [OF y] by (simp add: pad4 [OF y] rx_Y_def digits_value_def)
qed


lemma zfill_dec_year: "1000 \<le> y \<Longrightarrow> zfill 4 (dec y) = dec y"
proof -
  assume y: "1000 \<le> y"
  then have a: "100 \<le> y div 10" by auto
  then have b: "10 \<le> y div 10 div 10" by auto
  have "dec y = dec (y div 10) @ [digit_char (y mod 10)]" using y by (intro dec_ge10) simp
  also have "dec (y div 10) = dec (y div 10 div 10) @ [digit_char (y div 10 mod 10)]"
    using a by (intro dec_ge10) simp
  also have "dec (y div 10 div 10)
      = dec (y div 10 div 10 div 10) @ [digit_char (y div 10 div 10 mod 10)]"
    using b by (intro dec_ge10) simp
  finally have "4 \<le> length (dec y)" using dec_nonempty [of "y div 10 div 10 div 10"]
    by (cases "dec (y div 10 div 10 div 10)") simp_all
  then show ?thesis by (simp add: zfill_def)
qed

lemma rx_Y_dec: "1000 \<le> y \<Longrightarrow> y < 10000 \<Longrightarrow> rx_Y (dec y @ r) = [(y, r)]"
  using rx_Y_pad [of y r] by (simp add: zfill_dec_year)

lemma rx_m_pad:
  assumes "1 \<le> m" "m \<le> 12"
  shows "\<exists>t. rx_m (zfill 2 (dec m) @ r) = (m, r) # t"
proof -
  have "m \<in> {1, 2, 3, 4, 5, 6, 7, 8, 9, 10, 11, 12}" using assms by simp arith
  then show ?thesis
    by (elim insertE emptyE)
      (simp_all add: pad2 rx_m_def rx_two_def rx_one_def in_range_def digit_char_def
        digits_value_def digit_val_def is_digit_def)
qed

lemma rx_d_pad:
  assumes "1 \<le> d" "d \<le> 31"
  shows "\<exists>t. rx_d (zfill 2 (dec d) @ r) = (d, r) # t"
proof -
  have "d \<in> {1, 2, 3, 4, 5, 6, 7, 8, 9, 10, 11, 12, 13, 14, 15, 16, 17, 18, 19, 20,
      21, 22, 23, 24, 25, 26, 27, 28, 29, 30, 31}" using assms by simp arith
  then show ?thesis
    by (elim insertE emptyE)
      (simp_all add: pad2 rx_d_def rx_two_def rx_one_def in_range_def digit_char_def
        digits_value_def digit_val_def is_digit_def)
qed

lemma days_in_month_le: "1 \<le> m \<Longrightarrow> m \<le> 12 \<Longrightarrow> days_in_month y m \<le> 31"
proof -
  assume "1 \<le> m" "m \<le> 12"
  then have "m \<in> {1, 2, 3, 4, 5, 6, 7, 8, 9, 10, 11, 12}" by simp arith
  then show ?thesis by (elim insertE emptyE) (simp_all add: days_in_month_def mdays_def)
qed

lemma date_regex_strftime:
  assumes "valid_date (y, m, d)" "1000 \<le> y"
  shows "\<exists>t. date_regex (strftime_Ymd (y, m, d)) = (((y, m, d), []) # t)"
proof -
  have y: "y < 10000" and m: "1 \<le> m" "m \<le> 12" and d: "1 \<le> d" "d \<le> days_in_month y m"
    using assms by (simp_all add: valid_date_def)
  have d31: "d \<le> 31" using d(2) days_in_month_le [OF m, of y] by simp
  let ?r1 = "''-'' @ zfill 2 (dec m) @ ''-'' @ zfill 2 (dec d)"
  let ?r3 = "''-'' @ zfill 2 (dec d)"
  have s: "strftime_Ymd (y, m, d) = dec y @ ?r1" by (simp add: strftime_Ymd_def)
  have Y: "rx_Y (dec y @ ?r1) = [(y, ?r1)]" by (rule rx_Y_dec [OF assms(2) y])
  obtain tm where M: "rx_m (zfill 2 (dec m) @ ?r3) = (m, ?r3) # tm"
    using rx_m_pad [OF m] by blast
  obtain td where D: "rx_d (zfill 2 (dec d) @ []) = (d, []) # td"
    using rx_d_pad [OF d(1) d31] by blast
  show ?thesis
    unfolding date_regex_def s Y using M D by (simp add: rx_lit_def)
qed

lemma strptime_strftime:
  "valid_date dt \<Longrightarrow> 1000 \<le> fst dt \<Longrightarrow> strptime (strftime_Ymd dt) = Inr dt"
proof -
  assume v: "valid_date dt" and f: "1000 \<le> fst dt"
  obtain y m d where dt: "dt = (y, m, d)" by (cases dt) auto
  obtain t where "date_regex (strftime_Ymd (y, m, d)) = (((y, m, d), []) # t)"
    using date_regex_strftime [of y m d] v f dt by auto
  then show ?thesis using v dt by (simp add: strptime_def)
qed

lemma strptime_valid: "strptime s = Inr dt \<Longrightarrow> valid_date dt"
  by (auto simp: strptime_def split: list.splits if_splits)

section \<open>Properties of the store operations\<close>

lemma list_all_update:
  "P (k, v) \<Longrightarrow> list_all P al \<Longrightarrow> list_all P (AList.update k v al)"
  by (induction al) auto

lemma list_all_map_entry:
  "list_all P al \<Longrightarrow> (\<And>v. P (k, v) \<Longrightarrow> P (k, f v)) \<Longrightarrow> list_all P (AList.map_entry k f al)"
  by (induction al) auto

lemma map_of_ensure_month:
  "map_of (ensure_month wd mk) = (if map_of wd mk = None then (map_of wd)(mk \<mapsto> []) else map_of wd)"
  by (simp add: ensure_month_def update_conv')

lemma map_of_set_day:
  "map_of (set_day wd mk d v) =
     (map_of wd)(mk \<mapsto> AList.update d v (case map_of wd mk of None \<Rightarrow> [] | Some md \<Rightarrow> md))"
  by (auto simp: set_day_def map_of_map_entry map_of_ensure_month fun_eq_iff split: option.splits)

lemma lookup_set_day:
  "lookup_day (set_day wd mk d v) mk' d' =
     (if mk' = mk \<and> d' = d then Some v else lookup_day wd mk' d')"
  by (auto simp: lookup_day_def map_of_set_day update_conv' split: option.splits)

lemma store_inv_set_day:
  assumes "store_inv wd" "date_in_month mk d"
  shows "store_inv (set_day wd mk d v)"
proof -
  let ?P = "\<lambda>(month_year :: string, month_data :: month_data). list_all (\<lambda>(date, hours). date_in_month month_year date) month_data"
  have 1: "list_all ?P (ensure_month wd mk)"
    using assms(1) by (auto simp: ensure_month_def store_inv_def intro: list_all_update)
  have "list_all ?P (AList.map_entry mk (AList.update d v) (ensure_month wd mk))"
    using 1
  proof (rule list_all_map_entry)
    fix md :: month_data assume "?P (mk, md)"
    then show "?P (mk, AList.update d v md)" using assms(2) by (auto intro: list_all_update)
  qed
  then show ?thesis by (simp add: store_inv_def set_day_def)
qed

lemma dict_wf_set_day:
  assumes "dict_wf wd"
  shows "dict_wf (set_day wd mk d v)"
proof -
  let ?P = "\<lambda>(month_year :: string, month_data :: month_data). distinct (map fst month_data)"
  have d1: "distinct (map fst (ensure_month wd mk))"
    using assms by (simp add: ensure_month_def dict_wf_def distinct_update)
  have 1: "list_all ?P (ensure_month wd mk)"
    using assms by (auto simp: ensure_month_def dict_wf_def intro: list_all_update)
  have "list_all ?P (AList.map_entry mk (AList.update d v) (ensure_month wd mk))"
    using 1
  proof (rule list_all_map_entry)
    fix md :: month_data assume "?P (mk, md)"
    then show "?P (mk, AList.update d v md)" by (simp add: distinct_update)
  qed
  then show ?thesis using d1 by (simp add: dict_wf_def set_day_def distinct_map_entry)
qed


lemma date_in_month_strftime:
  "valid_date dt \<Longrightarrow> 1000 \<le> fst dt \<Longrightarrow> date_in_month (strftime_Ym dt) (strftime_Ymd dt)"
  by (simp add: date_in_month_def strptime_strftime)

lemma row_date_valid:
  assumes "row_get row ''Date'' = Inr dv"
    and "case map_of row ''Date'' of Some (CDate y m d) \<Rightarrow> valid_date (y, m, d) | _ \<Rightarrow> True"
    and "case map_of row ''Date'' of Some date_value \<Rightarrow> four_digit_year date_value | None \<Rightarrow> True"
    and "parse_date_from_row dv = Inr (CDate y m d)"
  shows "valid_date (y, m, d) \<and> 1000 \<le> y"
proof -
  have look: "map_of row ''Date'' = Some dv"
    using assms(1) by (auto simp: row_get_def split: option.splits)
  have f: "four_digit_year dv" using assms(3) look by simp
  show ?thesis
  proof (cases dv)
    case (CStr s)
    then have p: "strptime s = Inr (y, m, d)"
      using assms(4) by (auto simp: parse_date_from_row_def split: sum.splits)
    then have "valid_date (y, m, d)" by (rule strptime_valid)
    moreover have "1000 \<le> y" using f CStr p by (simp add: four_digit_year_def)
    ultimately show ?thesis by simp
  next
    case (CDate y' m' d')
    then have e: "dv = CDate y m d" using assms(4) by (simp add: parse_date_from_row_def)
    then have "valid_date (y, m, d)" using assms(2) look by simp
    moreover have "1000 \<le> y" using f e by (simp add: four_digit_year_def)
    ultimately show ?thesis by simp
  next
    case COther
    then show ?thesis using assms(4) by (simp add: parse_date_from_row_def)
  qed
qed

lemma row_key_in_month:
  assumes "row_get row ''Date'' = Inr dv"
    and "case map_of row ''Date'' of Some (CDate y m d) \<Rightarrow> valid_date (y, m, d) | _ \<Rightarrow> True"
    and "case map_of row ''Date'' of Some date_value \<Rightarrow> four_digit_year date_value | None \<Rightarrow> True"
    and "parse_date_from_row dv = Inr dobj"
    and "strftime_of strftime_Ym dobj = Inr mk"
    and "strftime_of strftime_Ymd dobj = Inr ds"
  shows "date_in_month mk ds"
proof -
  obtain y m d where dobj: "dobj = CDate y m d"
    using assms(5) by (cases dobj) (auto simp: strftime_of_def)
  have "valid_date (y, m, d) \<and> 1000 \<le> y"
    using row_date_valid [OF assms(1,2,3)] assms(4) dobj by simp
  then have "date_in_month (strftime_Ym (y, m, d)) (strftime_Ymd (y, m, d))"
    by (simp add: date_in_month_strftime)
  then show ?thesis using assms(5,6) dobj by (simp add: strftime_of_def)
qed

lemma convert_rows_ConsE:
  assumes a: "convert_rows (row # rest) wd = Inr wd'"
  obtains dv dobj mk ds worked extra where
    "row_get row ''Date'' = Inr dv" "parse_date_from_row dv = Inr dobj"
    "strftime_of strftime_Ym dobj = Inr mk" "strftime_of strftime_Ymd dobj = Inr ds"
    "row_get row ''Hours Worked'' = Inr worked" "row_get row ''Extra Hours'' = Inr extra"
    "convert_rows rest (set_day wd mk ds \<lparr>worked_hours = worked, extra_hours = extra\<rparr>) = Inr wd'"
proof -
  obtain dv where 1: "row_get row ''Date'' = Inr dv"
    using a by (cases "row_get row ''Date''") simp_all
  obtain dobj where 2: "parse_date_from_row dv = Inr dobj"
    using a 1 by (cases "parse_date_from_row dv") simp_all
  obtain mk where 3: "strftime_of strftime_Ym dobj = Inr mk"
    using a 1 2 by (cases "strftime_of strftime_Ym dobj") simp_all
  obtain ds where 4: "strftime_of strftime_Ymd dobj = Inr ds"
    using a 1 2 3 by (cases "strftime_of strftime_Ymd dobj") simp_all
  obtain worked where 5: "row_get row ''Hours Worked'' = Inr worked"
    using a 1 2 3 4 by (cases "row_get row ''Hours Worked''") simp_all
  obtain extra where 6: "row_get row ''Extra Hours'' = Inr extra"
    using a 1 2 3 4 5 by (cases "row_get row ''Extra Hours''") simp_all
  have 7: "convert_rows rest (set_day wd mk ds \<lparr>worked_hours = worked, extra_hours = extra\<rparr>) = Inr wd'"
    using a 1 2 3 4 5 6 by simp
  from 1 2 3 4 5 6 7 show ?thesis by (rule that)
qed

lemma convert_rows_inv:
  "wf_dataframe df \<Longrightarrow> four_digit_years df \<Longrightarrow> store_inv wd \<Longrightarrow> dict_wf wd
   \<Longrightarrow> convert_rows df wd = Inr wd' \<Longrightarrow> store_inv wd' \<and> dict_wf wd'"
proof (induction df arbitrary: wd)
  case Nil
  then show ?case by simp
next
  case (Cons row rest)
  from Cons.prems(5) obtain dv dobj mk ds worked extra where
    s: "row_get row ''Date'' = Inr dv" "parse_date_from_row dv = Inr dobj"
      "strftime_of strftime_Ym dobj = Inr mk" "strftime_of strftime_Ymd dobj = Inr ds"
    and r: "convert_rows rest (set_day wd mk ds \<lparr>worked_hours = worked, extra_hours = extra\<rparr>) = Inr wd'"
    by (rule convert_rows_ConsE)
  have w: "case map_of row ''Date'' of Some (CDate y m d) \<Rightarrow> valid_date (y, m, d) | _ \<Rightarrow> True"
    and wr: "wf_dataframe rest"
    using Cons.prems(1) by (simp_all add: wf_dataframe_def)
  have f: "case map_of row ''Date'' of Some date_value \<Rightarrow> four_digit_year date_value | None \<Rightarrow> True"
    and fr: "four_digit_years rest"
    using Cons.prems(2) by (simp_all add: four_digit_years_def)
  have k: "date_in_month mk ds" by (rule row_key_in_month [OF s(1) w f s(2) s(3) s(4)])
  show ?case
    using Cons.IH [OF wr fr store_inv_set_day [OF Cons.prems(3) k] dict_wf_set_day [OF Cons.prems(4)] r] .
qed

lemma store_inv_empty: "store_inv [] \<and> dict_wf []"
  by (simp add: store_inv_def dict_wf_def)

lemma convert_inv:
  assumes "wf_read r" "four_digit_read r"
    and "(case r of Inl e \<Rightarrow> Inl e | Inr df \<Rightarrow> convert_dataframe_to_work_data df) = Inr wd"
  shows "store_inv wd \<and> dict_wf wd"
proof (cases r)
  case (Inl e)
  then show ?thesis using assms(3) by simp
next
  case (Inr df)
  then have "wf_dataframe df" "four_digit_years df" "convert_rows df [] = Inr wd"
    using assms
    by (simp_all add: wf_read_def four_digit_read_def convert_dataframe_to_work_data_def)
  then show ?thesis using store_inv_empty by (intro convert_rows_inv [of df "[]" wd]) simp_all
qed

lemma load_cases:
  "load_existing_data src = [] \<or>
   (\<exists>a b. src = Present a b \<and>
     ((case a of Inl e \<Rightarrow> Inl e | Inr df \<Rightarrow> convert_dataframe_to_work_data df) = Inr (load_existing_data src)
      \<or> (case b of Inl e \<Rightarrow> Inl e | Inr df \<Rightarrow> convert_dataframe_to_work_data df) = Inr (load_existing_data src)))"
proof (cases src)
  case Missing
  then show ?thesis by (simp add: load_existing_data_def)
next
  case (Present a b)
  show ?thesis
  proof (cases "load_from_data_sheet a")
    case (Inr wd)
    then show ?thesis using Present by (simp add: load_existing_data_def load_from_data_sheet_def)
  next
    case (Inl e)
    show ?thesis
    proof (cases "load_from_legacy_format b")
      case (Inr wd)
      then show ?thesis using Present Inl
        by (simp add: load_existing_data_def load_from_legacy_format_def)
    next
      case (Inl e')
      then show ?thesis using Present \<open>load_from_data_sheet a = Inl e\<close>
        by (simp add: load_existing_data_def)
    qed
  qed
qed

lemma load_inv:
  assumes "wf_source src" "four_digit_source src"
  shows "store_inv (load_existing_data src) \<and> dict_wf (load_existing_data src)"
proof -
  from load_cases [of src] show ?thesis
  proof (elim disjE exE conjE)
    assume "load_existing_data src = []"
    then show ?thesis by (simp add: store_inv_empty)
  next
    fix a b
    assume s: "src = Present a b"
      and c: "(case a of Inl e \<Rightarrow> Inl e | Inr df \<Rightarrow> convert_dataframe_to_work_data df) = Inr (load_existing_data src)"
    have "wf_read a" "four_digit_read a"
      using assms s by (simp_all add: wf_source_def four_digit_source_def)
    then show ?thesis using c by (rule convert_inv)
  next
    fix a b
    assume s: "src = Present a b"
      and c: "(case b of Inl e \<Rightarrow> Inl e | Inr df \<Rightarrow> convert_dataframe_to_work_data df) = Inr (load_existing_data src)"
    have "wf_read b" "four_digit_read b"
      using assms s by (simp_all add: wf_source_def four_digit_source_def)
    then show ?thesis using c by (rule convert_inv)
  qed
qed


lemma add_Inr_D:
  "add_current_day_data wd d w e = Inr wd' \<Longrightarrow>
     \<exists>dt. strptime d = Inr dt
       \<and> wd' = set_day wd (strftime_Ym dt) d \<lparr>worked_hours = CStr w, extra_hours = CStr e\<rparr>"
  by (cases "strptime d") (simp_all add: add_current_day_data_def)




text \<open>
  Claim C4.  Loading returns a store whatever the prior file is (the function has no
  exceptional result): the empty store when the file is missing; the store built from
  the Data sheet when that succeeds; otherwise the store built from the first sheet when
  that succeeds; otherwise the empty store.
\<close>

theorem load_never_raises:
  "load_existing_data Missing = []
   \<and> (load_from_data_sheet data_read = Inr wd \<longrightarrow>
        load_existing_data (Present data_read first_read) = wd)
   \<and> (load_from_data_sheet data_read = Inl e \<longrightarrow> load_from_legacy_format first_read = Inr wd \<longrightarrow>
        load_existing_data (Present data_read first_read) = wd)
   \<and> (load_from_data_sheet data_read = Inl e \<longrightarrow> load_from_legacy_format first_read = Inl e' \<longrightarrow>
        load_existing_data (Present data_read first_read) = [])"
  by (simp add: load_existing_data_def)

theorem load_never_raises_witness:
  "load_from_data_sheet (Inr [[(''Date'', COther)]]) = Inl AttributeError
   \<and> load_from_legacy_format
       (Inr [[(''Date'', CStr ''2025-01-10''), (''Hours Worked'', CStr ''08:00''),
              (''Extra Hours'', CStr ''00:00'')]])
     = Inr [(''2025-01'', [(''2025-01-10'', \<lparr>worked_hours = CStr ''08:00'', extra_hours = CStr ''00:00''\<rparr>)])]
   \<and> load_existing_data
       (Present (Inr [[(''Date'', COther)]])
          (Inr [[(''Date'', CStr ''2025-01-10''), (''Hours Worked'', CStr ''08:00''),
                 (''Extra Hours'', CStr ''00:00'')]]))
     = [(''2025-01'', [(''2025-01-10'', \<lparr>worked_hours = CStr ''08:00'', extra_hours = CStr ''00:00''\<rparr>)])]
   \<and> load_from_data_sheet (Inl ReadError) = Inl ReadError
   \<and> load_from_legacy_format (Inr [[(''Day'', COther)]]) = Inl KeyError
   \<and> load_existing_data (Present (Inl ReadError) (Inr [[(''Day'', COther)]])) = []"
proof -
  have 1: "load_from_data_sheet (Inr [[(''Date'', COther)]]) = Inl AttributeError"
    by code_simp
  have 2: "load_from_legacy_format
       (Inr [[(''Date'', CStr ''2025-01-10''), (''Hours Worked'', CStr ''08:00''),
              (''Extra Hours'', CStr ''00:00'')]])
     = Inr [(''2025-01'', [(''2025-01-10'', \<lparr>worked_hours = CStr ''08:00'', extra_hours = CStr ''00:00''\<rparr>)])]"
    by code_simp
  have 3: "load_from_data_sheet (Inl ReadError) = Inl ReadError" by code_simp
  have 4: "load_from_legacy_format (Inr [[(''Day'', COther)]]) = Inl KeyError" by code_simp
  note t = load_never_raises [of "Inr [[(''Date'', COther)]]" _
      "Inr [[(''Date'', CStr ''2025-01-10''), (''Hours Worked'', CStr ''08:00''),
             (''Extra Hours'', CStr ''00:00'')]]" AttributeError]
  note u = load_never_raises [of "Inl ReadError" _ "Inr [[(''Day'', COther)]]" ReadError KeyError]
  from t 1 2 have a: "load_existing_data
       (Present (Inr [[(''Date'', COther)]])
          (Inr [[(''Date'', CStr ''2025-01-10''), (''Hours Worked'', CStr ''08:00''),
                 (''Extra Hours'', CStr ''00:00'')]]))
     = [(''2025-01'', [(''2025-01-10'', \<lparr>worked_hours = CStr ''08:00'', extra_hours = CStr ''00:00''\<rparr>)])]"
    by blast
  from u 3 4 have b: "load_existing_data (Present (Inl ReadError) (Inr [[(''Day'', COther)]])) = []"
    by blast
  from 1 2 3 4 a b show ?thesis by blast
qed

section \<open>Merging one day\<close>

lemma flatten_keys: "map hd (flatten_work_data wd) = map CStr (flat_keys wd)"
  by (induction wd) (auto simp: flatten_work_data_def flat_keys_def)

lemma flat_keys_in_month:
  "store_inv wd \<Longrightarrow> k \<in> set (flat_keys wd) \<Longrightarrow> \<exists>mk \<in> fst ` set wd. date_in_month mk k"
  by (induction wd) (auto simp: store_inv_def flat_keys_def list_all_iff)

lemma date_in_month_unique: "date_in_month mk k \<Longrightarrow> date_in_month mk' k \<Longrightarrow> mk = mk'"
  by (auto simp: date_in_month_def split: sum.splits)

lemma distinct_flat_keys: "store_inv wd \<Longrightarrow> dict_wf wd \<Longrightarrow> distinct (flat_keys wd)"
proof (induction wd)
  case Nil
  then show ?case by (simp add: flat_keys_def)
next
  case (Cons b wd)
  obtain mk md where b: "b = (mk, md)" by (cases b)
  have si: "store_inv wd" and dw: "dict_wf wd"
    using Cons.prems by (simp_all add: store_inv_def dict_wf_def)
  have dm: "distinct (map fst md)" and nk: "mk \<notin> fst ` set wd"
    and im: "\<forall>k \<in> set (map fst md). date_in_month mk k"
    using Cons.prems b by (auto simp: store_inv_def dict_wf_def list_all_iff)
  have disj: "set (map fst md) \<inter> set (flat_keys wd) = {}"
  proof (rule ccontr)
    assume "set (map fst md) \<inter> set (flat_keys wd) \<noteq> {}"
    then obtain k where k: "k \<in> set (map fst md)" "k \<in> set (flat_keys wd)" by blast
    from flat_keys_in_month [OF si k(2)] obtain mk' where
      mk': "mk' \<in> fst ` set wd" "date_in_month mk' k" by blast
    from im k(1) have "date_in_month mk k" by blast
    with mk'(2) have "mk = mk'" using date_in_month_unique by blast
    with mk'(1) nk show False by simp
  qed
  have "flat_keys (b # wd) = map fst md @ flat_keys wd" by (simp add: flat_keys_def b)
  then show ?case using dm Cons.IH [OF si dw] disj by simp
qed

lemma lookup_in_flatten:
  "lookup_day wd mk d = Some v \<Longrightarrow> [CStr d, worked_hours v, extra_hours v] \<in> set (flatten_work_data wd)"
proof -
  assume a: "lookup_day wd mk d = Some v"
  then obtain md where md: "map_of wd mk = Some md" "map_of md d = Some v"
    by (auto simp: lookup_day_def split: option.splits)
  then have "(mk, md) \<in> set wd" "(d, v) \<in> set md" by (auto dest: map_of_SomeD)
  then show ?thesis by (force simp: flatten_work_data_def)
qed



lemma distinct_count_one: "distinct xs \<Longrightarrow> x \<in> set xs \<Longrightarrow> count_list xs x = 1"
  by (induction xs) (auto simp: count_list_0_iff)



section \<open>Saving and loading again\<close>

text \<open>
  Claim C2 at the date text \<open>2025-1-5\<close>, which \<^verbatim>\<open>strptime\<close> accepts and the date prompt
  therefore lets through.  The merge files the record under the text as typed; the
  flattened table written to the Data sheet holds that text; loading the saved file
  files the record under \<open>2025-01-05\<close>.  The row read back is not the row merged.
\<close>

theorem round_trip_unpadded_date:
  "add_current_day_data (load_existing_data Missing) ''2025-1-5'' ''08:00'' ''00:00''
     = Inr [(''2025-01'', [(''2025-1-5'', \<lparr>worked_hours = CStr ''08:00'', extra_hours = CStr ''00:00''\<rparr>)])]
   \<and> flatten_work_data
        [(''2025-01'', [(''2025-1-5'', \<lparr>worked_hours = CStr ''08:00'', extra_hours = CStr ''00:00''\<rparr>)])]
     = [[CStr ''2025-1-5'', CStr ''08:00'', CStr ''00:00'']]
   \<and> flatten_work_data (load_existing_data (saved_source
        [(''2025-01'', [(''2025-1-5'', \<lparr>worked_hours = CStr ''08:00'', extra_hours = CStr ''00:00''\<rparr>)])]
        (Inl ReadError)))
     = [[CStr ''2025-01-05'', CStr ''08:00'', CStr ''00:00'']]
   \<and> count_list (flatten_work_data (load_existing_data (saved_source
        [(''2025-01'', [(''2025-1-5'', \<lparr>worked_hours = CStr ''08:00'', extra_hours = CStr ''00:00''\<rparr>)])]
        (Inl ReadError))))
        [CStr ''2025-1-5'', CStr ''08:00'', CStr ''00:00''] = 0"
proof -
  let ?wd = "[(''2025-01'', [(''2025-1-5'', \<lparr>worked_hours = CStr ''08:00'', extra_hours = CStr ''00:00''\<rparr>)])]"
  have 1: "add_current_day_data (load_existing_data Missing) ''2025-1-5'' ''08:00'' ''00:00'' = Inr ?wd"
    by code_simp
  have 2: "flatten_work_data ?wd = [[CStr ''2025-1-5'', CStr ''08:00'', CStr ''00:00'']]"
    by code_simp
  have 3: "flatten_work_data (load_existing_data (saved_source ?wd (Inl ReadError)))
      = [[CStr ''2025-01-05'', CStr ''08:00'', CStr ''00:00'']]"
    by code_simp
  have 4: "count_list (flatten_work_data (load_existing_data (saved_source ?wd (Inl ReadError))))
      [CStr ''2025-1-5'', CStr ''08:00'', CStr ''00:00''] = 0"
    unfolding 3 by simp
  from 1 2 3 4 show ?thesis by blast
qed

section \<open>The rows of a month grid\<close>

lemma monthcalendar_2025_1:
  "monthcalendar 2025 1 =
     Inr [[0, 0, 1, 2, 3, 4, 5], [6, 7, 8, 9, 10, 11, 12], [13, 14, 15, 16, 17, 18, 19],
          [20, 21, 22, 23, 24, 25, 26], [27, 28, 29, 30, 31, 0, 0]]"
proof -
  have r: "monthrange 2025 1 = Inr (2, 31)"
    by (simp add: monthrange_def weekday_def ymd2ord_def days_before_year_def
        days_before_month_def mdays_def isleap_def)
  show ?thesis unfolding monthcalendar_def r by (simp add: slices7.simps upt_rec replicate_small)
qed

lemma dec_2025: "dec 2025 = ''2025''"
  by (simp add: dec.simps digit_char_def)

lemma pad2_Suc_0: "zfill 2 (dec (Suc 0)) = ''01''"
  using pad2 [of 1] by (simp add: digit_char_def)

lemma fill_2025_1:
  "fill_calendar_days 2025 1
     [(''2025-01-01'', \<lparr>worked_hours = CStr ''08:30'', extra_hours = CStr ''00:30''\<rparr>)]
   = Inr [((4, 3), DayNumber 1), ((5, 3), Worked (CStr ''08:30'')),
      ((6, 3), Extra (CStr ''00:30'')), ((4, 4), DayNumber 2),
      ((4, 5), DayNumber 3), ((4, 6), DayNumber 4), ((4, 7), DayNumber 5),
      ((5, 1), DayNumber 6), ((5, 2), DayNumber 7), ((5, 3), DayNumber 8),
      ((5, 4), DayNumber 9), ((5, 5), DayNumber 10), ((5, 6), DayNumber 11),
      ((5, 7), DayNumber 12), ((6, 1), DayNumber 13),
      ((6, 2), DayNumber 14), ((6, 3), DayNumber 15),
      ((6, 4), DayNumber 16), ((6, 5), DayNumber 17),
      ((6, 6), DayNumber 18), ((6, 7), DayNumber 19),
      ((7, 1), DayNumber 20), ((7, 2), DayNumber 21),
      ((7, 3), DayNumber 22), ((7, 4), DayNumber 23),
      ((7, 5), DayNumber 24), ((7, 6), DayNumber 25),
      ((7, 7), DayNumber 26), ((8, 1), DayNumber 27),
      ((8, 2), DayNumber 28), ((8, 3), DayNumber 29),
      ((8, 4), DayNumber 30), ((8, 5), DayNumber 31)]"
  unfolding fill_calendar_days_def monthcalendar_2025_1
  by (simp add: enumerate_eq_zip upt_rec add_day_cell_def dec_2025 pad2 pad2_Suc_0 digit_char_def
      add_work_hours_to_cell_def)


lemma parse_0030: "parse_time_string (CStr ''00:30'') = 1800"
  by (simp add: parse_time_string_def py_int_def strip_def is_space_def is_digit_def
      digit_val_def max_str_digits_def mk_timedelta_def td_ok_def)

lemma format_0030: "format_timedelta 1800 = ''00:30''"
  by (simp add: format_timedelta_def fmt_02d_def zfill_def dec.simps digit_char_def)

lemma format_0830: "format_timedelta 30600 = ''08:30''"
  by (simp add: format_timedelta_def fmt_02d_def zfill_def dec.simps digit_char_def)

lemma totals_2025_1:
  "add_monthly_totals
     [(k, \<lparr>worked_hours = CStr ''08:30'', extra_hours = CStr ''00:30''\<rparr>)] 5
   = Inr [((10, 2), Merged), ((10, 1), TotalLabel), ((10, 3), TotalWorked ''08:30''),
          ((10, 5), TotalExtra ''00:30'')]"
  by (simp add: add_monthly_totals_def calculate_monthly_totals_def parse_0830 parse_0030
      td_add_def td_ok_def format_0830 format_0030 merge_cells_def upt_rec)

lemma calendar_2025_1_writes:
  "create_monthly_calendar 2025 1
     [(''2025-01-01'', \<lparr>worked_hours = CStr ''08:30'', extra_hours = CStr ''00:30''\<rparr>)]
   = Inr ([((1, 2), Merged), ((1, 3), Merged), ((1, 4), Merged), ((1, 5), Merged),
      ((1, 6), Merged), ((1, 7), Merged), ((1, 8), Merged),
      ((1, 1), Title ''January 2025''), ((3, 1), Header ''Monday''),
      ((3, 2), Header ''Tuesday''), ((3, 3), Header ''Wednesday''),
      ((3, 4), Header ''Thursday''), ((3, 5), Header ''Friday''),
      ((3, 6), Header ''Saturday''), ((3, 7), Header ''Sunday''),
      ((4, 3), DayNumber 1), ((5, 3), Worked (CStr ''08:30'')),
      ((6, 3), Extra (CStr ''00:30'')), ((4, 4), DayNumber 2),
      ((4, 5), DayNumber 3), ((4, 6), DayNumber 4), ((4, 7), DayNumber 5),
      ((5, 1), DayNumber 6), ((5, 2), DayNumber 7), ((5, 3), DayNumber 8),
      ((5, 4), DayNumber 9), ((5, 5), DayNumber 10), ((5, 6), DayNumber 11),
      ((5, 7), DayNumber 12), ((6, 1), DayNumber 13),
      ((6, 2), DayNumber 14), ((6, 3), DayNumber 15),
      ((6, 4), DayNumber 16), ((6, 5), DayNumber 17),
      ((6, 6), DayNumber 18), ((6, 7), DayNumber 19),
      ((7, 1), DayNumber 20), ((7, 2), DayNumber 21),
      ((7, 3), DayNumber 22), ((7, 4), DayNumber 23),
      ((7, 5), DayNumber 24), ((7, 6), DayNumber 25),
      ((7, 7), DayNumber 26), ((8, 1), DayNumber 27),
      ((8, 2), DayNumber 28), ((8, 3), DayNumber 29),
      ((8, 4), DayNumber 30), ((8, 5), DayNumber 31), ((10, 2), Merged),
      ((10, 1), TotalLabel), ((10, 3), TotalWorked ''08:30''),
      ((10, 5), TotalExtra ''00:30'')])"
proof -
  have t: "add_month_title 2025 1 = Inr [((1, 2), Merged), ((1, 3), Merged), ((1, 4), Merged),
      ((1, 5), Merged), ((1, 6), Merged), ((1, 7), Merged), ((1, 8), Merged),
      ((1, 1), Title ''January 2025'')]"
    by (simp add: add_month_title_def month_name_def dec_2025 merge_cells_def upt_rec)
  have h: "add_day_headers = [((3, 1), Header ''Monday''),
      ((3, 2), Header ''Tuesday''), ((3, 3), Header ''Wednesday''),
      ((3, 4), Header ''Thursday''), ((3, 5), Header ''Friday''),
      ((3, 6), Header ''Saturday''), ((3, 7), Header ''Sunday'')]"
    by (simp add: add_day_headers_def)
  have l: "length [[0, 0, 1, 2, 3, 4, 5], [6, 7, 8, 9, 10, 11, 12], [13, 14, 15, 16, 17, 18, 19],
      [20, 21, 22, 23, 24, 25, 26], [27, 28, 29, 30, 31, 0, 0::nat]] = 5"
    by simp
  show ?thesis
    unfolding create_monthly_calendar_def t fill_2025_1 monthcalendar_2025_1 h sum.case l
      totals_2025_1
    by simp
qed

text \<open>
  Claim C1 at January 2025 with one record, for 1 January (a Wednesday: week 0, column
  3).  The day number goes to row 4, the worked line to row 5 and the extra line to row
  6; the day numbers of 8 and 15 January, one and two weeks later in the same column, go
  to rows 5 and 6 as well, since a week advances the row by one.  Two writes of the
  renderer target the cell (5, 3), and the sheet ends with the day numbers there: both
  sub-lines of 1 January are lost.
\<close>

theorem day_rows_overlap:
  "(case create_monthly_calendar 2025 1
           [(''2025-01-01'', \<lparr>worked_hours = CStr ''08:30'', extra_hours = CStr ''00:30''\<rparr>)] of
      Inl e \<Rightarrow> False
    | Inr writes \<Rightarrow>
        ((5, 3), Worked (CStr ''08:30'')) \<in> set (grid_writes writes)
        \<and> ((5, 3), DayNumber 8) \<in> set (grid_writes writes)
        \<and> \<not> distinct (map fst (grid_writes writes))
        \<and> final_value writes (5, 3) = Some (DayNumber 8)
        \<and> final_value writes (6, 3) = Some (DayNumber 15))"
  unfolding calendar_2025_1_writes by (simp add: grid_writes_def final_value_def)

section \<open>Properties of the assembled document\<close>

lemma zfill_dec_digits: "c \<in> set (zfill w (dec n)) \<Longrightarrow> is_digit c"
  using zfill_digits [of "dec n" w] dec_digits by blast

lemma is_digit_not_minus: "is_digit c \<Longrightarrow> c \<noteq> CHR ''-''"
  by (auto simp: is_digit_def)

lemma py_int_zfill:
  assumes "length (zfill w (dec n)) \<le> max_str_digits"
  shows "py_int (zfill w (dec n)) = Inr (int n)"
proof -
  let ?s = "zfill w (dec n)"
  have d: "\<forall>c\<in>set ?s. is_digit c" using zfill_dec_digits by blast
  have ne: "?s \<noteq> []" by (simp add: zfill_def dec_nonempty)
  have v: "digits_value 0 ?s = n" by (simp add: zfill_def digits_value_zeros digits_value_dec)
  show ?thesis using py_int_digits [OF d ne assms] by (simp add: v)
qed

lemma parse_month_key_strftime:
  assumes "valid_date (y, m, d)"
  shows "parse_month_key (strftime_Ym (y, m, d)) = Inr (y, m)"
proof -
  have y: "y < 10000" and m: "m < 100" using assms by (simp_all add: valid_date_def)
  let ?a = "zfill 0 (dec y)" and ?b = "zfill 2 (dec m)"
  have a: "?a = dec y" by (simp add: zfill_def)
  have na: "CHR ''-'' \<notin> set ?a" using zfill_dec_digits is_digit_not_minus by blast
  have nb: "CHR ''-'' \<notin> set ?b" using zfill_dec_digits is_digit_not_minus by blast
  have s: "split_on (CHR ''-'') (strftime_Ym (y, m, d)) = [?a, ?b]"
    using split_on_append [OF na, of ?b] split_on_no_sep [OF nb] by (simp add: strftime_Ym_def a)
  have "length (dec y) \<le> length (zfill 4 (dec y))" by (simp add: zfill_def)
  then have la: "length ?a \<le> max_str_digits" by (simp add: a pad4 [OF y] max_str_digits_def)
  have lb: "length ?b \<le> max_str_digits" by (simp add: pad2 [OF m] max_str_digits_def)
  show ?thesis
    unfolding parse_month_key_def s list.map py_int_zfill [OF la] py_int_zfill [OF lb] by simp
qed

lemma month_name_valid:
  assumes "1 \<le> m" "m \<le> 12"
  shows "\<exists>name. month_name m = Inr name \<and> month_title (y, m, d) = name @ '' '' @ dec y
    \<and> CHR '' '' \<notin> set name"
proof -
  have "m \<in> {1, 2, 3, 4, 5, 6, 7, 8, 9, 10, 11, 12}" using assms by simp arith
  then show ?thesis
    by (elim insertE emptyE) (simp_all add: month_name_def month_title_def)
qed

lemma monthcalendar_Inr: "1 \<le> m \<Longrightarrow> m \<le> 12 \<Longrightarrow> \<exists>weeks. monthcalendar y m = Inr weeks"
  by (simp add: monthcalendar_def monthrange_def Let_def)

lemma create_monthly_calendar_Inr:
  assumes "1 \<le> m" "m \<le> 12"
    and "running_ok 0 (worked_durations md) \<and> running_ok 0 (extra_durations md)"
  shows "\<exists>writes. create_monthly_calendar y m md = Inr writes"
proof -
  obtain name where n: "month_name m = Inr name"
    using month_name_valid [OF assms(1,2)] by blast
  obtain weeks where w: "monthcalendar y m = Inr weeks"
    using monthcalendar_Inr [OF assms(1,2)] by blast
  have t: "calculate_monthly_totals md
      = Inr (sum_list (worked_durations md), sum_list (extra_durations md))"
    using assms(3) by (simp add: totals_char)
  show ?thesis
    by (simp add: create_monthly_calendar_def add_month_title_def n fill_calendar_days_def w
        add_monthly_totals_def t Let_def)
qed

lemma bucket_key_date:
  assumes "store_inv wd" "nonempty_buckets wd" "(mk, md) \<in> set wd"
  shows "\<exists>dt. valid_date dt \<and> strftime_Ym dt = mk"
proof -
  have "md \<noteq> []" using assms(2,3) by (auto simp: nonempty_buckets_def list_all_iff)
  then obtain k v rest where md: "md = (k, v) # rest" by (cases md) auto
  have "date_in_month mk k" using assms(1,3) md by (auto simp: store_inv_def list_all_iff)
  then obtain dt where "strptime k = Inr dt" "strftime_Ym dt = mk"
    by (auto simp: date_in_month_def split: sum.splits)
  then show ?thesis using strptime_valid by blast
qed

lemma month_sheet_ok:
  assumes "store_inv wd" "dict_wf wd" "nonempty_buckets wd" "totals_in_range wd"
    and "mk \<in> set (map fst wd)"
  shows "\<exists>dt writes. valid_date dt \<and> strftime_Ym dt = mk
    \<and> month_sheet wd mk = Inr (month_title dt, Grid writes)"
proof -
  obtain md where in_wd: "(mk, md) \<in> set wd" using assms(5) by auto
  have look: "map_of wd mk = Some md" using assms(2) in_wd by (simp add: dict_wf_def)
  obtain dt where dt: "valid_date dt" "strftime_Ym dt = mk"
    using bucket_key_date [OF assms(1,3) in_wd] by blast
  obtain y m d where ymd: "dt = (y, m, d)" by (cases dt) auto
  have m: "1 \<le> m" "m \<le> 12" using dt(1) ymd by (simp_all add: valid_date_def)
  have p: "parse_month_key mk = Inr (y, m)"
    using parse_month_key_strftime dt ymd by blast
  obtain name where n: "month_name m = Inr name" "month_title (y, m, d) = name @ '' '' @ dec y"
    using month_name_valid [OF m] by blast
  have "running_ok 0 (worked_durations md) \<and> running_ok 0 (extra_durations md)"
    using assms(4) in_wd by (auto simp: totals_in_range_def list_all_iff)
  then obtain writes where w: "create_monthly_calendar y m md = Inr writes"
    using create_monthly_calendar_Inr [OF m] by blast
  have "month_sheet wd mk = Inr (month_title dt, Grid writes)"
    by (simp add: month_sheet_def p n look w ymd)
  with dt show ?thesis by blast
qed

lemma add_month_sheets_ok:
  assumes "\<forall>k \<in> set keys. \<exists>s. month_sheet wd k = Inr s"
  shows "\<exists>sheets. add_month_sheets keys wd wb = Inr (wb @ sheets)
    \<and> list_all2 (\<lambda>k s. month_sheet wd k = Inr s) keys sheets"
  using assms
proof (induction keys arbitrary: wb)
  case Nil
  then show ?case by simp
next
  case (Cons k keys)
  obtain t c where s: "month_sheet wd k = Inr (t, c)" using Cons.prems by fastforce
  have "\<forall>k \<in> set keys. \<exists>s. month_sheet wd k = Inr s" using Cons.prems by simp
  from Cons.IH [OF this, of "create_sheet wb t c"] obtain sheets where
    r: "add_month_sheets keys wd (create_sheet wb t c) = Inr (create_sheet wb t c @ sheets)"
      "list_all2 (\<lambda>k s. month_sheet wd k = Inr s) keys sheets" by blast
  have "add_month_sheets (k # keys) wd wb = Inr (wb @ (t, c) # sheets)"
    using s r(1) by (simp add: create_sheet_def)
  moreover have "list_all2 (\<lambda>k s. month_sheet wd k = Inr s) (k # keys) ((t, c) # sheets)"
    using s r(2) by simp
  ultimately show ?case by blast
qed

lemma is_digit_not_blank: "is_digit c \<Longrightarrow> c \<noteq> CHR '' ''"
  by (auto simp: is_digit_def)

lemma dec_no_blank: "CHR '' '' \<notin> set (dec n)"
  using dec_digits is_digit_not_blank by blast

lemma dec_inj: "dec a = dec b \<Longrightarrow> a = b"
  using digits_value_dec by metis

lemma month_title_space: "1 \<le> m \<Longrightarrow> m \<le> 12 \<Longrightarrow> CHR '' '' \<in> set (month_title (y, m, d))"
  using month_name_valid [of m y d] by auto

lemma month_title_inj:
  assumes "1 \<le> m" "m \<le> 12" "1 \<le> m'" "m' \<le> 12"
    and "month_title (y, m, d) = month_title (y', m', d')"
  shows "y = y' \<and> m = m'"
proof -
  obtain n where n: "month_name m = Inr n" "month_title (y, m, d) = n @ '' '' @ dec y"
    "CHR '' '' \<notin> set n" using month_name_valid [OF assms(1,2)] by blast
  obtain n' where n': "month_name m' = Inr n'" "month_title (y', m', d') = n' @ '' '' @ dec y'"
    "CHR '' '' \<notin> set n'" using month_name_valid [OF assms(3,4)] by blast
  have "split_on (CHR '' '') (n @ CHR '' '' # dec y) = split_on (CHR '' '') (n' @ CHR '' '' # dec y')"
    using assms(5) n(2) n'(2) by simp
  then have "n # split_on (CHR '' '') (dec y) = n' # split_on (CHR '' '') (dec y')"
    by (simp add: split_on_append n(3) n'(3))
  moreover have "CHR '' '' \<notin> set (dec y)" "CHR '' '' \<notin> set (dec y')"
    by (rule dec_no_blank)+
  ultimately have e: "n = n'" "dec y = dec y'" by (simp_all add: split_on_no_sep)
  have y: "y = y'" using e(2) by (rule dec_inj)
  have "m \<in> {1, 2, 3, 4, 5, 6, 7, 8, 9, 10, 11, 12}" using assms(1,2) by simp arith
  moreover have "m' \<in> {1, 2, 3, 4, 5, 6, 7, 8, 9, 10, 11, 12}" using assms(3,4) by simp arith
  moreover have "month_name m = month_name m'" using n(1) n'(1) e(1) by simp
  ultimately have "m = m'"
    by (elim insertE emptyE) (simp_all add: month_name_def)
  with y show ?thesis by simp
qed

lemma list_all_map_entry_update:
  "list_all (\<lambda>(k :: string, md :: month_data). md \<noteq> []) wd \<Longrightarrow>
   list_all (\<lambda>(k :: string, md :: month_data). md \<noteq> []) (AList.map_entry mk (AList.update d v) wd)"
  by (induction wd) auto

lemma list_all_map_entry_new:
  "list_all (\<lambda>(k :: string, md :: month_data). md \<noteq> []) wd \<Longrightarrow>
   list_all (\<lambda>(k :: string, md :: month_data). md \<noteq> [])
     (AList.map_entry mk (AList.update d v) (AList.update mk [] wd))"
  by (induction wd) auto

lemma nonempty_set_day: "nonempty_buckets wd \<Longrightarrow> nonempty_buckets (set_day wd mk d v)"
  by (simp add: nonempty_buckets_def set_day_def ensure_month_def list_all_map_entry_update
      list_all_map_entry_new)

lemma convert_rows_nonempty:
  "nonempty_buckets wd \<Longrightarrow> convert_rows df wd = Inr wd' \<Longrightarrow> nonempty_buckets wd'"
proof (induction df arbitrary: wd)
  case Nil
  then show ?case by simp
next
  case (Cons row rest)
  from Cons.prems(2) obtain mk ds worked extra where
    r: "convert_rows rest (set_day wd mk ds \<lparr>worked_hours = worked, extra_hours = extra\<rparr>) = Inr wd'"
    by (rule convert_rows_ConsE)
  show ?case using Cons.IH [OF nonempty_set_day [OF Cons.prems(1)] r] .
qed

lemma load_nonempty: "nonempty_buckets (load_existing_data src)"
proof -
  have e: "nonempty_buckets []" by (simp add: nonempty_buckets_def)
  have c: "\<And>r wd. (case r of Inl e \<Rightarrow> Inl e | Inr df \<Rightarrow> convert_dataframe_to_work_data df) = Inr wd
      \<Longrightarrow> nonempty_buckets wd"
  proof -
    fix r :: "exn + dataframe" and wd
    assume a: "(case r of Inl e \<Rightarrow> Inl e | Inr df \<Rightarrow> convert_dataframe_to_work_data df) = Inr wd"
    then obtain df where "r = Inr df" "convert_rows df [] = Inr wd"
      by (cases r) (simp_all add: convert_dataframe_to_work_data_def)
    then show "nonempty_buckets wd" using convert_rows_nonempty [OF e] by blast
  qed
  from load_cases [of src] show ?thesis using e c by (elim disjE exE conjE) simp_all
qed

lemma produced_nonempty: "produced wd \<Longrightarrow> nonempty_buckets wd"
proof (induction rule: produced.induct)
  case (by_load src)
  show ?case by (rule load_nonempty)
next
  case (by_merge wd d w e wd')
  from add_Inr_D [OF by_merge.hyps(2)] obtain dt where
    "wd' = set_day wd (strftime_Ym dt) d \<lparr>worked_hours = CStr w, extra_hours = CStr e\<rparr>" by blast
  then show ?case using nonempty_set_day [OF by_merge.IH] by simp
qed

lemma list_all2_in_set2: "list_all2 P xs ys \<Longrightarrow> y \<in> set ys \<Longrightarrow> \<exists>x \<in> set xs. P x y"
  by (induction rule: list_all2_induct) auto

lemma distinct_related:
  assumes "list_all2 P xs ys" "distinct xs"
    and "\<And>x x' y y'. P x y \<Longrightarrow> P x' y' \<Longrightarrow> f y = f y' \<Longrightarrow> x = x'"
  shows "distinct (map f ys)"
  using assms(1,2)
proof (induction rule: list_all2_induct)
  case Nil
  then show ?case by simp
next
  case (Cons x xs y ys)
  have "f y \<notin> f ` set ys"
  proof
    assume "f y \<in> f ` set ys"
    then obtain y' where y': "y' \<in> set ys" "f y = f y'" by auto
    from list_all2_in_set2 [OF Cons.hyps(2) y'(1)] obtain x' where x': "x' \<in> set xs" "P x' y'"
      by blast
    from assms(3) [OF Cons.hyps(1) x'(2) y'(2)] have "x = x'" .
    with x'(1) Cons.prems show False by simp
  qed
  then show ?case using Cons by simp
qed

lemma titled_keys_inj:
  assumes "valid_date dt" "strftime_Ym dt = k" "valid_date dt'" "strftime_Ym dt' = k'"
    and "month_title dt = month_title dt'"
  shows "k = k'"
proof -
  obtain y m d where a: "dt = (y, m, d)" by (cases dt) auto
  obtain y' m' d' where b: "dt' = (y', m', d')" by (cases dt') auto
  have "1 \<le> m" "m \<le> 12" "1 \<le> m'" "m' \<le> 12"
    using assms(1,3) a b by (simp_all add: valid_date_def)
  from month_title_inj [OF this assms(5) [unfolded a b]] have "y = y' \<and> m = m'" .
  then show ?thesis using assms(2,4) a b by (simp add: strftime_Ym_def)
qed

text \<open>
  Claim C5.  For a store that satisfies the invariant, has no empty bucket and whose
  monthly totals can be computed, assembling returns a workbook made of one sheet per
  month key, in the ascending order of the sorted keys, each titled with the month's
  name and the year and holding a grid, followed by one sheet titled \<open>Data\<close> that holds
  the header row and the flattened records; the titles are distinct and none is the
  title \<open>Sheet\<close> of the blank sheet a new workbook starts with.
\<close>

theorem assembled_document:
  assumes "store_inv wd" "dict_wf wd" "nonempty_buckets wd" "totals_in_range wd"
  shows "\<exists>sheets.
      assemble wd = Inr (sheets @
        [(''Data'', Table (if flatten_work_data wd \<noteq> []
                           then [CStr ''Date'', CStr ''Hours Worked'', CStr ''Extra Hours'']
                                # flatten_work_data wd
                           else []))])
    \<and> list_all2 (\<lambda>month_key sheet.
          (\<exists>dt. valid_date dt \<and> strftime_Ym dt = month_key \<and> fst sheet = month_title dt)
          \<and> (\<exists>writes. snd sheet = Grid writes))
        (sort (map fst wd)) sheets
    \<and> distinct (map fst sheets)
    \<and> ''Data'' \<notin> set (map fst sheets)
    \<and> ''Sheet'' \<notin> set (map fst sheets)"
proof -
  let ?keys = "sort (map fst wd)"
  let ?P = "\<lambda>month_key sheet.
          (\<exists>dt. valid_date dt \<and> strftime_Ym dt = month_key \<and> fst sheet = month_title dt)
          \<and> (\<exists>writes. snd sheet = Grid writes)"
  have ok: "\<forall>k \<in> set ?keys. \<exists>s. month_sheet wd k = Inr s"
    using month_sheet_ok [OF assms] by fastforce
  from add_month_sheets_ok [OF ok, of "[]"] obtain sheets where
    s: "add_month_sheets ?keys wd [] = Inr sheets"
      "list_all2 (\<lambda>k s. month_sheet wd k = Inr s) ?keys sheets" by auto
  have a: "assemble wd = Inr (sheets @
        [(''Data'', Table (if flatten_work_data wd \<noteq> []
                           then [CStr ''Date'', CStr ''Hours Worked'', CStr ''Extra Hours'']
                                # flatten_work_data wd
                           else []))])"
    using s(1)
    by (simp add: assemble_def create_workbook_with_calendars_def remove_active_def
        new_workbook_def add_backup_data_sheet_def create_sheet_def Let_def)
  have p: "list_all2 ?P ?keys sheets"
    using s(2)
  proof (rule list.rel_mono_strong)
    fix k sh
    assume k: "k \<in> set ?keys" and m: "month_sheet wd k = Inr sh"
    from k have "k \<in> set (map fst wd)" by simp
    from month_sheet_ok [OF assms this] obtain dt writes where
      "valid_date dt" "strftime_Ym dt = k" "month_sheet wd k = Inr (month_title dt, Grid writes)"
      by blast
    with m have "valid_date dt \<and> strftime_Ym dt = k \<and> fst sh = month_title dt"
      and "snd sh = Grid writes" by auto
    then show "?P k sh" by blast
  qed
  have dk: "distinct ?keys" using assms(2) by (simp add: dict_wf_def)
  have d: "distinct (map fst sheets)"
    using p dk
  proof (rule distinct_related)
    fix x x' :: string and y y' :: "string \<times> sheet_content"
    assume "?P x y" "?P x' y'" "fst y = fst y'"
    then show "x = x'" using titled_keys_inj by metis
  qed
  have blank: "\<forall>t \<in> set (map fst sheets). CHR '' '' \<in> set t"
  proof
    fix t assume "t \<in> set (map fst sheets)"
    then obtain sh where sh: "sh \<in> set sheets" "t = fst sh" by auto
    from list_all2_in_set2 [OF p sh(1)] obtain dt where dt: "valid_date dt" "fst sh = month_title dt"
      by blast
    obtain y m dd where ymd: "dt = (y, m, dd)" by (cases dt) auto
    have "1 \<le> m" "m \<le> 12" using dt(1) ymd by (simp_all add: valid_date_def)
    then show "CHR '' '' \<in> set t" using month_title_space sh(2) dt(2) ymd by simp
  qed
  have n1: "''Data'' \<notin> set (map fst sheets)" using blank by fastforce
  have n2: "''Sheet'' \<notin> set (map fst sheets)" using blank by fastforce
  from a p d n1 n2 show ?thesis by blast
qed

theorem assembled_document_witness:
  "store_inv
     [(''2025-03'', [(''2025-03-03'', \<lparr>worked_hours = CStr ''08:30'', extra_hours = CStr ''00:30''\<rparr>)]),
      (''2024-12'', [(''2024-12-02'', \<lparr>worked_hours = CStr ''08:00'', extra_hours = CStr ''00:00''\<rparr>)]),
      (''2025-01'', [(''2025-01-15'', \<lparr>worked_hours = CStr ''07:45'', extra_hours = CStr ''-1:45''\<rparr>)])]
   \<and> dict_wf
     [(''2025-03'', [(''2025-03-03'', \<lparr>worked_hours = CStr ''08:30'', extra_hours = CStr ''00:30''\<rparr>)]),
      (''2024-12'', [(''2024-12-02'', \<lparr>worked_hours = CStr ''08:00'', extra_hours = CStr ''00:00''\<rparr>)]),
      (''2025-01'', [(''2025-01-15'', \<lparr>worked_hours = CStr ''07:45'', extra_hours = CStr ''-1:45''\<rparr>)])]
   \<and> nonempty_buckets
     [(''2025-03'', [(''2025-03-03'', \<lparr>worked_hours = CStr ''08:30'', extra_hours = CStr ''00:30''\<rparr>)]),
      (''2024-12'', [(''2024-12-02'', \<lparr>worked_hours = CStr ''08:00'', extra_hours = CStr ''00:00''\<rparr>)]),
      (''2025-01'', [(''2025-01-15'', \<lparr>worked_hours = CStr ''07:45'', extra_hours = CStr ''-1:45''\<rparr>)])]
   \<and> totals_in_range
     [(''2025-03'', [(''2025-03-03'', \<lparr>worked_hours = CStr ''08:30'', extra_hours = CStr ''00:30''\<rparr>)]),
      (''2024-12'', [(''2024-12-02'', \<lparr>worked_hours = CStr ''08:00'', extra_hours = CStr ''00:00''\<rparr>)]),
      (''2025-01'', [(''2025-01-15'', \<lparr>worked_hours = CStr ''07:45'', extra_hours = CStr ''-1:45''\<rparr>)])]
   \<and> (\<exists>sheets. length sheets = 3 \<and> distinct (map fst sheets)
        \<and> list_all2 (\<lambda>month_key sheet.
              (\<exists>dt. valid_date dt \<and> strftime_Ym dt = month_key \<and> fst sheet = month_title dt)
              \<and> (\<exists>writes. snd sheet = Grid writes))
            [''2024-12'', ''2025-01'', ''2025-03''] sheets
        \<and> assemble
            [(''2025-03'', [(''2025-03-03'', \<lparr>worked_hours = CStr ''08:30'', extra_hours = CStr ''00:30''\<rparr>)]),
             (''2024-12'', [(''2024-12-02'', \<lparr>worked_hours = CStr ''08:00'', extra_hours = CStr ''00:00''\<rparr>)]),
             (''2025-01'', [(''2025-01-15'', \<lparr>worked_hours = CStr ''07:45'', extra_hours = CStr ''-1:45''\<rparr>)])]
          = Inr (sheets @
              [(''Data'', Table
                 [[CStr ''Date'', CStr ''Hours Worked'', CStr ''Extra Hours''],
                  [CStr ''2025-03-03'', CStr ''08:30'', CStr ''00:30''],
                  [CStr ''2024-12-02'', CStr ''08:00'', CStr ''00:00''],
                  [CStr ''2025-01-15'', CStr ''07:45'', CStr ''-1:45'']])]))"
proof -
  let ?wd = "[(''2025-03'', [(''2025-03-03'', \<lparr>worked_hours = CStr ''08:30'', extra_hours = CStr ''00:30''\<rparr>)]),
      (''2024-12'', [(''2024-12-02'', \<lparr>worked_hours = CStr ''08:00'', extra_hours = CStr ''00:00''\<rparr>)]),
      (''2025-01'', [(''2025-01-15'', \<lparr>worked_hours = CStr ''07:45'', extra_hours = CStr ''-1:45''\<rparr>)])]"
  have i: "store_inv ?wd" by code_simp
  have w: "dict_wf ?wd" by code_simp
  have n: "nonempty_buckets ?wd" by code_simp
  have t: "totals_in_range ?wd" by code_simp
  have k: "sort (map fst ?wd) = [''2024-12'', ''2025-01'', ''2025-03'']" by code_simp
  have f: "flatten_work_data ?wd =
      [[CStr ''2025-03-03'', CStr ''08:30'', CStr ''00:30''],
       [CStr ''2024-12-02'', CStr ''08:00'', CStr ''00:00''],
       [CStr ''2025-01-15'', CStr ''07:45'', CStr ''-1:45'']]"
    by (simp add: flatten_work_data_def)
  from assembled_document [OF i w n t] obtain sheets where
    s: "assemble ?wd = Inr (sheets @
        [(''Data'', Table (if flatten_work_data ?wd \<noteq> []
                           then [CStr ''Date'', CStr ''Hours Worked'', CStr ''Extra Hours'']
                                # flatten_work_data ?wd
                           else []))])"
      "list_all2 (\<lambda>month_key sheet.
          (\<exists>dt. valid_date dt \<and> strftime_Ym dt = month_key \<and> fst sheet = month_title dt)
          \<and> (\<exists>writes. snd sheet = Grid writes))
        (sort (map fst ?wd)) sheets"
      "distinct (map fst sheets)"
    by blast
  have l: "length sheets = 3" using list_all2_lengthD [OF s(2)] unfolding k by simp
  from s(1) have a: "assemble ?wd = Inr (sheets @
              [(''Data'', Table
                 [[CStr ''Date'', CStr ''Hours Worked'', CStr ''Extra Hours''],
                  [CStr ''2025-03-03'', CStr ''08:30'', CStr ''00:30''],
                  [CStr ''2024-12-02'', CStr ''08:00'', CStr ''00:00''],
                  [CStr ''2025-01-15'', CStr ''07:45'', CStr ''-1:45'']])])"
    unfolding f by simp
  from i w n t l s(3) s(2) [unfolded k] a show ?thesis by blast
qed

section \<open>Loading a saved store of canonical dates\<close>

lemma update_append_new: "k \<notin> fst ` set al \<Longrightarrow> AList.update k v al = al @ [(k, v)]"
  by (induction al) auto

lemma map_entry_append_last:
  "k \<notin> fst ` set al \<Longrightarrow> AList.map_entry k f (al @ [(k, v)]) = al @ [(k, f v)]"
  by (induction al) auto

lemma map_of_append_last: "k \<notin> fst ` set al \<Longrightarrow> map_of (al @ [(k, v)]) k = Some v"
  by (induction al) auto

lemma set_day_new_bucket:
  assumes "mk \<notin> fst ` set pre"
  shows "set_day pre mk k v = pre @ [(mk, [(k, v)])]"
proof -
  have n: "map_of pre mk = None" using assms by (simp add: map_of_eq_None_iff)
  have "ensure_month pre mk = pre @ [(mk, [])]"
    using assms by (simp add: ensure_month_def n update_append_new)
  then show ?thesis using assms by (simp add: set_day_def map_entry_append_last)
qed

lemma set_day_last_bucket:
  assumes "mk \<notin> fst ` set pre" "k \<notin> fst ` set md"
  shows "set_day (pre @ [(mk, md)]) mk k v = pre @ [(mk, md @ [(k, v)])]"
proof -
  have "map_of (pre @ [(mk, md)]) mk = Some md" using assms(1) by (rule map_of_append_last)
  then have "ensure_month (pre @ [(mk, md)]) mk = pre @ [(mk, md)]"
    by (simp add: ensure_month_def)
  then show ?thesis
    using assms by (simp add: set_day_def map_entry_append_last update_append_new)
qed

lemma rebuild_bucket_tail:
  "mk \<notin> fst ` set pre \<Longrightarrow> distinct (map fst (md1 @ md2)) \<Longrightarrow>
   rebuild (pre @ [(mk, md1)]) (map (Pair mk) md2)
     = pre @ [(mk, md1 @ md2)]"
proof (induction md2 arbitrary: md1)
  case Nil
  then show ?case by (simp add: rebuild_def)
next
  case (Cons p md2)
  obtain k v where p: "p = (k, v)" by (cases p)
  have k: "k \<notin> fst ` set md1" using Cons.prems(2) p by auto
  have d: "distinct (map fst ((md1 @ [(k, v)]) @ md2))" using Cons.prems(2) p by auto
  have "rebuild (pre @ [(mk, md1)]) (map (Pair mk) (p # md2))
      = rebuild (set_day (pre @ [(mk, md1)]) mk k v) (map (Pair mk) md2)"
    by (simp add: rebuild_def p)
  also have "\<dots> = rebuild (pre @ [(mk, md1 @ [(k, v)])]) (map (Pair mk) md2)"
    by (simp add: set_day_last_bucket [OF Cons.prems(1) k])
  also have "\<dots> = pre @ [(mk, (md1 @ [(k, v)]) @ md2)]"
    by (rule Cons.IH [OF Cons.prems(1) d])
  finally show ?case by (simp add: p)
qed

lemma rebuild_bucket:
  assumes "mk \<notin> fst ` set pre" "distinct (map fst md)" "md \<noteq> []"
  shows "rebuild pre (map (Pair mk) md) = pre @ [(mk, md)]"
proof -
  obtain k v rest where md: "md = (k, v) # rest" using assms(3) by (cases md) auto
  have "rebuild pre (map (Pair mk) md)
      = rebuild (set_day pre mk k v) (map (Pair mk) rest)"
    by (simp add: rebuild_def md)
  also have "\<dots> = rebuild (pre @ [(mk, [(k, v)])]) (map (Pair mk) rest)"
    by (simp add: set_day_new_bucket [OF assms(1)])
  also have "\<dots> = pre @ [(mk, [(k, v)] @ rest)]"
    using assms(2) md by (intro rebuild_bucket_tail [OF assms(1)]) simp
  finally show ?thesis by (simp add: md)
qed

lemma rebuild_append: "rebuild acc (xs @ ys) = rebuild (rebuild acc xs) ys"
  by (simp add: rebuild_def)

lemma rebuild_entries:
  "distinct (map fst (pre @ wd)) \<Longrightarrow> dict_wf wd \<Longrightarrow> nonempty_buckets wd
   \<Longrightarrow> rebuild pre (entries wd) = pre @ wd"
proof (induction wd arbitrary: pre)
  case Nil
  then show ?case by (simp add: rebuild_def entries_def)
next
  case (Cons b wd)
  obtain mk md where b: "b = (mk, md)" by (cases b)
  have mk: "mk \<notin> fst ` set pre" using Cons.prems(1) b by auto
  have md: "distinct (map fst md)" "md \<noteq> []"
    using Cons.prems(2,3) b by (simp_all add: dict_wf_def nonempty_buckets_def)
  have rest: "dict_wf wd" "nonempty_buckets wd"
    using Cons.prems(2,3) by (simp_all add: dict_wf_def nonempty_buckets_def)
  have d: "distinct (map fst ((pre @ [(mk, md)]) @ wd))" using Cons.prems(1) b by simp
  have "entries (b # wd) = map (Pair mk) md @ entries wd"
    by (simp add: entries_def b)
  then have "rebuild pre (entries (b # wd)) = rebuild (pre @ [(mk, md)]) (entries wd)"
    by (simp add: rebuild_append rebuild_bucket [OF mk md])
  also have "\<dots> = (pre @ [(mk, md)]) @ wd" by (rule Cons.IH [OF d rest])
  finally show ?case by (simp add: b)
qed


lemma backup_rows: "backup_dataframe (flatten_work_data wd) = map row_of (entries wd)"
  by (induction wd) (auto simp: backup_dataframe_def flatten_work_data_def entries_def row_of_def)

lemma convert_row_canonical:
  assumes "canonical_key k" "date_in_month mk k"
  shows "convert_rows (row_of (mk, k, v) # rest) acc = convert_rows rest (set_day acc mk k v)"
proof -
  obtain dt where dt: "strptime k = Inr dt" "strftime_Ymd dt = k" "strftime_Ym dt = mk"
    using assms by (auto simp: canonical_key_def date_in_month_def split: sum.splits)
  obtain y m d where ymd: "dt = (y, m, d)" by (cases dt) auto
  have v: "\<lparr>worked_hours = worked_hours v, extra_hours = extra_hours v\<rparr> = v" by simp
  show ?thesis
    using dt ymd
    by (simp add: row_of_def row_get_def parse_date_from_row_def strftime_of_def v)
qed

lemma convert_entries:
  "list_all (\<lambda>(mk, k, v). canonical_key k \<and> date_in_month mk k) es
   \<Longrightarrow> convert_rows (map row_of es) acc = Inr (rebuild acc es)"
proof (induction es arbitrary: acc)
  case Nil
  then show ?case by (simp add: rebuild_def)
next
  case (Cons e es)
  obtain mk k v where e: "e = (mk, k, v)" by (cases e) auto
  have c: "canonical_key k" "date_in_month mk k" using Cons.prems e by simp_all
  have r: "list_all (\<lambda>(mk, k, v). canonical_key k \<and> date_in_month mk k) es"
    using Cons.prems by simp
  have "convert_rows (map row_of (e # es)) acc = convert_rows (map row_of es) (set_day acc mk k v)"
    using convert_row_canonical [OF c] by (simp add: e)
  also have "\<dots> = Inr (rebuild (set_day acc mk k v) es)" by (rule Cons.IH [OF r])
  finally show ?case by (simp add: rebuild_def e)
qed

lemma entries_canonical:
  "store_inv wd \<Longrightarrow> canonical wd
   \<Longrightarrow> list_all (\<lambda>(mk, k, v). canonical_key k \<and> date_in_month mk k) (entries wd)"
  by (induction wd) (auto simp: store_inv_def canonical_def entries_def list_all_iff)

lemma reload_canonical:
  assumes "store_inv wd" "dict_wf wd" "nonempty_buckets wd" "canonical wd"
  shows "load_existing_data (saved_source wd first_read) = wd"
proof -
  have d: "distinct (map fst ([] @ wd))" using assms(2) by (simp add: dict_wf_def)
  have "convert_rows (backup_dataframe (flatten_work_data wd)) [] = Inr (rebuild [] (entries wd))"
    unfolding backup_rows by (rule convert_entries [OF entries_canonical [OF assms(1,4)]])
  also have "rebuild [] (entries wd) = [] @ wd" by (rule rebuild_entries [OF d assms(2,3)])
  finally show ?thesis
    by (simp add: load_existing_data_def saved_source_def load_from_data_sheet_def
        convert_dataframe_to_work_data_def)
qed


lemma canonical_set_day:
  assumes "canonical wd" "canonical_key d"
  shows "canonical (set_day wd mk d v)"
proof -
  let ?P = "\<lambda>(month_year :: string, month_data :: month_data).
      list_all (\<lambda>(date, hours). canonical_key date) month_data"
  have 1: "list_all ?P (ensure_month wd mk)"
    using assms(1) by (auto simp: ensure_month_def canonical_def intro: list_all_update)
  have "list_all ?P (AList.map_entry mk (AList.update d v) (ensure_month wd mk))"
    using 1
  proof (rule list_all_map_entry)
    fix md :: month_data assume "?P (mk, md)"
    then show "?P (mk, AList.update d v md)" using assms(2) by (auto intro: list_all_update)
  qed
  then show ?thesis by (simp add: canonical_def set_day_def)
qed

lemma canonical_strftime:
  "valid_date dt \<Longrightarrow> 1000 \<le> fst dt \<Longrightarrow> canonical_key (strftime_Ymd dt)"
  by (simp add: canonical_key_def strptime_strftime)

lemma row_key_canonical:
  assumes "row_get row ''Date'' = Inr dv"
    and "case map_of row ''Date'' of Some (CDate y m d) \<Rightarrow> valid_date (y, m, d) | _ \<Rightarrow> True"
    and "case map_of row ''Date'' of Some date_value \<Rightarrow> four_digit_year date_value | None \<Rightarrow> True"
    and "parse_date_from_row dv = Inr dobj"
    and "strftime_of strftime_Ymd dobj = Inr ds"
  shows "canonical_key ds"
proof -
  obtain y m d where dobj: "dobj = CDate y m d"
    using assms(5) by (cases dobj) (auto simp: strftime_of_def)
  have "valid_date (y, m, d) \<and> 1000 \<le> y"
    using row_date_valid [OF assms(1,2,3)] assms(4) dobj by simp
  then have "canonical_key (strftime_Ymd (y, m, d))" by (simp add: canonical_strftime)
  then show ?thesis using assms(5) dobj by (simp add: strftime_of_def)
qed

lemma convert_rows_canonical:
  "wf_dataframe df \<Longrightarrow> four_digit_years df \<Longrightarrow> canonical wd \<Longrightarrow> convert_rows df wd = Inr wd'
   \<Longrightarrow> canonical wd'"
proof (induction df arbitrary: wd)
  case Nil
  then show ?case by simp
next
  case (Cons row rest)
  from Cons.prems(4) obtain dv dobj mk ds worked extra where
    s: "row_get row ''Date'' = Inr dv" "parse_date_from_row dv = Inr dobj"
      "strftime_of strftime_Ymd dobj = Inr ds"
    and r: "convert_rows rest (set_day wd mk ds \<lparr>worked_hours = worked, extra_hours = extra\<rparr>) = Inr wd'"
    by (rule convert_rows_ConsE)
  have w: "case map_of row ''Date'' of Some (CDate y m d) \<Rightarrow> valid_date (y, m, d) | _ \<Rightarrow> True"
    and wr: "wf_dataframe rest"
    using Cons.prems(1) by (simp_all add: wf_dataframe_def)
  have f: "case map_of row ''Date'' of Some date_value \<Rightarrow> four_digit_year date_value | None \<Rightarrow> True"
    and fr: "four_digit_years rest"
    using Cons.prems(2) by (simp_all add: four_digit_years_def)
  have k: "canonical_key ds" by (rule row_key_canonical [OF s(1) w f s(2) s(3)])
  show ?case using Cons.IH [OF wr fr canonical_set_day [OF Cons.prems(3) k] r] .
qed

lemma load_canonical:
  assumes "wf_source src" "four_digit_source src"
  shows "canonical (load_existing_data src)"
proof -
  have e: "canonical []" by (simp add: canonical_def)
  have c: "\<And>r wd. wf_read r \<and> four_digit_read r \<Longrightarrow>
      (case r of Inl e \<Rightarrow> Inl e | Inr df \<Rightarrow> convert_dataframe_to_work_data df) = Inr wd
      \<Longrightarrow> canonical wd"
  proof -
    fix r :: "exn + dataframe" and wd
    assume w: "wf_read r \<and> four_digit_read r"
      and a: "(case r of Inl e \<Rightarrow> Inl e | Inr df \<Rightarrow> convert_dataframe_to_work_data df) = Inr wd"
    from a obtain df where df: "r = Inr df" "convert_rows df [] = Inr wd"
      by (cases r) (simp_all add: convert_dataframe_to_work_data_def)
    have "wf_dataframe df" "four_digit_years df"
      using w df(1) by (simp_all add: wf_read_def four_digit_read_def)
    then show "canonical wd" using convert_rows_canonical e df(2) by blast
  qed
  from load_cases [of src] show ?thesis
  proof (elim disjE exE conjE)
    assume "load_existing_data src = []"
    then show ?thesis using e by simp
  next
    fix a b
    assume s: "src = Present a b"
      and l: "(case a of Inl e \<Rightarrow> Inl e | Inr df \<Rightarrow> convert_dataframe_to_work_data df) = Inr (load_existing_data src)"
    have "wf_read a \<and> four_digit_read a"
      using assms s by (simp add: wf_source_def four_digit_source_def)
    then show ?thesis using l by (rule c)
  next
    fix a b
    assume s: "src = Present a b"
      and l: "(case b of Inl e \<Rightarrow> Inl e | Inr df \<Rightarrow> convert_dataframe_to_work_data df) = Inr (load_existing_data src)"
    have "wf_read b \<and> four_digit_read b"
      using assms s by (simp add: wf_source_def four_digit_source_def)
    then show ?thesis using l by (rule c)
  qed
qed

text \<open>
  What does hold of claim C2: when the merged date text is in canonical form, the store
  after the merge, saved and loaded again, is the same store, and its flattened table
  holds the merged row exactly once.
\<close>

lemma round_trip_canonical_date:
  assumes "wf_source src" "four_digit_source src" "canonical_key d"
    and "add_current_day_data (load_existing_data src) d w e = Inr wd'"
  shows "load_existing_data (saved_source wd' first_read) = wd'
    \<and> count_list (flatten_work_data (load_existing_data (saved_source wd' first_read)))
         [CStr d, CStr w, CStr e] = 1"
proof -
  let ?s = "load_existing_data src"
  let ?v = "\<lparr>worked_hours = CStr w, extra_hours = CStr e\<rparr>"
  from add_Inr_D [OF assms(4)] obtain dt where
    dt: "strptime d = Inr dt" "wd' = set_day ?s (strftime_Ym dt) d ?v" by blast
  have im: "date_in_month (strftime_Ym dt) d" using dt(1) by (simp add: date_in_month_def)
  have i: "store_inv wd'" using load_inv [OF assms(1,2)] im dt(2) by (simp add: store_inv_set_day)
  have w: "dict_wf wd'" using load_inv [OF assms(1,2)] dt(2) by (simp add: dict_wf_set_day)
  have n: "nonempty_buckets wd'" using load_nonempty [of src] dt(2) by (simp add: nonempty_set_day)
  have c: "canonical wd'"
    using load_canonical [OF assms(1,2)] assms(3) dt(2) by (simp add: canonical_set_day)
  have r: "load_existing_data (saved_source wd' first_read) = wd'"
    by (rule reload_canonical [OF i w n c])
  have "lookup_day wd' (strftime_Ym dt) d = Some ?v" by (simp add: dt(2) lookup_set_day)
  from lookup_in_flatten [OF this] have m: "[CStr d, CStr w, CStr e] \<in> set (flatten_work_data wd')"
    by simp
  have "distinct (map hd (flatten_work_data wd'))"
    using distinct_flat_keys [OF i w] by (simp add: flatten_keys distinct_map inj_on_def)
  then have "distinct (flatten_work_data wd')" by (simp add: distinct_map)
  then have "count_list (flatten_work_data wd') [CStr d, CStr w, CStr e] = 1"
    using m by (rule distinct_count_one)
  with r show ?thesis by simp
qed


end
